theory Spec2Isabelle
  imports Complex_Main
begin

section \<open>Exceptions\<close>

text \<open>
  The exceptions that the modelled code paths of \<^verbatim>\<open>IBA/utils.py\<close> can raise, either
  directly from Python (unpacking, integer division, an unbound local, a missing key) or
  from NumPy (shapes that do not broadcast).  The module defines no exception class of
  its own.  \<open>IllKinded\<close> is not a Python exception: it marks a state mapping whose values
  are not of the kinds that \<^verbatim>\<open>state_dict\<close> produces, which the typed model does not cover.
\<close>

datatype error =
    ValueError
  | TypeError
  | AttributeError
  | KeyError
  | ZeroDivisionError
  | UnboundLocalError
  | IllKinded

section \<open>Float values\<close>

text \<open>
  A NumPy float is modelled by its value: a real number, one of the two infinities, or
  not-a-number.  The operations return the exact real result of a finite operation:
  overflow of finite results and the sign of zero are not modelled, and the rounding to
  binary64 or binary32 is a separate step, given below.  The special values follow
  IEEE 754.  A zero divisor is always a positive zero here, because every
  divisor in the module is converted from a Python integer or is \<open>ln 2\<close>.
\<close>

datatype npfloat = Fin real | PInf | NInf | NaN

fun fneg :: "npfloat \<Rightarrow> npfloat" where
  "fneg (Fin a) = Fin (- a)"
| "fneg PInf = NInf"
| "fneg NInf = PInf"
| "fneg NaN = NaN"

fun fadd :: "npfloat \<Rightarrow> npfloat \<Rightarrow> npfloat" where
  "fadd (Fin a) (Fin b) = Fin (a + b)"
| "fadd NaN _ = NaN"
| "fadd _ NaN = NaN"
| "fadd PInf NInf = NaN"
| "fadd NInf PInf = NaN"
| "fadd PInf _ = PInf"
| "fadd _ PInf = PInf"
| "fadd NInf _ = NInf"
| "fadd _ NInf = NInf"

definition fsub :: "npfloat \<Rightarrow> npfloat \<Rightarrow> npfloat" where
  "fsub a b = fadd a (fneg b)"

fun inf_times :: "npfloat \<Rightarrow> npfloat" where
  "inf_times (Fin b) = (if 0 < b then PInf else if b < 0 then NInf else NaN)"
| "inf_times PInf = PInf"
| "inf_times NInf = NInf"
| "inf_times NaN = NaN"

fun fmul :: "npfloat \<Rightarrow> npfloat \<Rightarrow> npfloat" where
  "fmul (Fin a) (Fin b) = Fin (a * b)"
| "fmul NaN _ = NaN"
| "fmul _ NaN = NaN"
| "fmul PInf y = inf_times y"
| "fmul NInf y = fneg (inf_times y)"
| "fmul x PInf = inf_times x"
| "fmul x NInf = fneg (inf_times x)"

fun fdiv :: "npfloat \<Rightarrow> npfloat \<Rightarrow> npfloat" where
  "fdiv (Fin a) (Fin b) =
     (if b \<noteq> 0 then Fin (a / b)
      else if 0 < a then PInf else if a < 0 then NInf else NaN)"
| "fdiv NaN _ = NaN"
| "fdiv _ NaN = NaN"
| "fdiv (Fin a) _ = Fin 0"
| "fdiv PInf (Fin b) = (if 0 \<le> b then PInf else NInf)"
| "fdiv NInf (Fin b) = (if 0 \<le> b then NInf else PInf)"
| "fdiv _ _ = NaN"

fun fsqrt :: "npfloat \<Rightarrow> npfloat" where
  "fsqrt (Fin a) = (if 0 \<le> a then Fin (sqrt a) else NaN)"
| "fsqrt PInf = PInf"
| "fsqrt NInf = NaN"
| "fsqrt NaN = NaN"

text \<open>\<^verbatim>\<open>v != 0.\<close>: every comparison with not-a-number is unequal.\<close>

fun f_ne_zero :: "npfloat \<Rightarrow> bool" where
  "f_ne_zero (Fin a) = (a \<noteq> 0)"
| "f_ne_zero _ = True"

text \<open>\<^verbatim>\<open>a > b\<close>: false as soon as one side is not-a-number.\<close>

fun fgt :: "npfloat \<Rightarrow> npfloat \<Rightarrow> bool" where
  "fgt (Fin a) (Fin b) = (b < a)"
| "fgt NaN _ = False"
| "fgt _ NaN = False"
| "fgt PInf PInf = False"
| "fgt PInf _ = True"
| "fgt _ PInf = False"
| "fgt NInf _ = False"
| "fgt _ NInf = True"

subsection \<open>Rounding\<close>

text \<open>
  The operations above return the exact real result.  Where a statement depends on the
  rounding of NumPy's floats, the rounding is applied to the result of each operation:
  \<open>round_float p\<close> rounds a real number to the nearest number whose significand has \<open>p\<close>
  bits, a tie to the even significand, as IEEE 754 does for binary64 (\<open>p = 53\<close>, NumPy's
  \<^verbatim>\<open>float64\<close> and Python's \<^verbatim>\<open>float\<close>) and for binary32 (\<open>p = 24\<close>, NumPy's \<^verbatim>\<open>float32\<close>).
  The exponent is not bounded: overflow to infinity and subnormal numbers are not
  modelled.
\<close>

definition round_even :: "real \<Rightarrow> int" where
  "round_even y =
     (let f = \<lfloor>y\<rfloor> in
      if y - of_int f < 1 / 2 then f
      else if 1 / 2 < y - of_int f then f + 1
      else if even f then f else f + 1)"

definition pow2 :: "int \<Rightarrow> real" where
  "pow2 k = (if 0 \<le> k then 2 ^ nat k else 1 / 2 ^ nat (- k))"

definition round_float :: "nat \<Rightarrow> real \<Rightarrow> real" where
  "round_float p x =
     (if x = 0 then 0
      else (let e = \<lfloor>log 2 \<bar>x\<bar>\<rfloor>; u = pow2 (e - int p + 1)
            in of_int (round_even (x / u)) * u))"

definition binary64 :: "real \<Rightarrow> real" where
  "binary64 x = round_float 53 x"

definition float32 :: "real \<Rightarrow> real" where
  "float32 x = round_float 24 x"

text \<open>The rounding of a result: infinities and not-a-number are kept.\<close>

definition round_with :: "(real \<Rightarrow> real) \<Rightarrow> npfloat \<Rightarrow> npfloat" where
  "round_with rnd v = (case v of Fin x \<Rightarrow> Fin (rnd x) | _ \<Rightarrow> v)"

section \<open>Arrays\<close>

text \<open>
  An \<^verbatim>\<open>ndarray\<close> is its shape and its elements in row-major order.  A zero-dimensional
  array (and a NumPy scalar) has the shape \<open>[]\<close> and one element.
\<close>

record 'a ndarray =
  shape :: "nat list"
  data :: "'a list"

definition wf_array :: "'a ndarray \<Rightarrow> bool" where
  "wf_array a = (length (data a) = prod_list (shape a))"

definition full :: "nat list \<Rightarrow> 'a \<Rightarrow> 'a ndarray" where
  "full sh v = \<lparr>shape = sh, data = replicate (prod_list sh) v\<rparr>"

text \<open>\<^verbatim>\<open>np.zeros(shape)\<close> and \<^verbatim>\<open>np.zeros(shape, dtype='long')\<close>.\<close>

definition zeros :: "nat list \<Rightarrow> npfloat ndarray" where
  "zeros sh = full sh (Fin 0)"

definition zeros_long :: "nat list \<Rightarrow> int ndarray" where
  "zeros_long sh = full sh 0"

definition map_array :: "('a \<Rightarrow> 'b) \<Rightarrow> 'a ndarray \<Rightarrow> 'b ndarray" where
  "map_array f a = \<lparr>shape = shape a, data = map f (data a)\<rparr>"

text \<open>The \<open>i\<close>-th of the consecutive blocks of \<open>k\<close> elements.\<close>

definition block :: "nat \<Rightarrow> nat \<Rightarrow> 'a list \<Rightarrow> 'a list" where
  "block k i d = take k (drop (i * k) d)"

text \<open>
  Iterating over an array yields its sub-arrays along the first axis; iterating over a
  zero-dimensional array raises \<^verbatim>\<open>TypeError\<close>.
\<close>

definition rows :: "'a ndarray \<Rightarrow> error + 'a ndarray list" where
  "rows x =
     (case shape x of
        [] \<Rightarrow> Inl TypeError
      | b # rest \<Rightarrow>
          Inr (map (\<lambda>i. \<lparr>shape = rest, data = block (prod_list rest) i (data x)\<rparr>) [0..<b]))"

subsection \<open>Broadcasting\<close>

text \<open>
  NumPy aligns two shapes at their last axes; two extents are compatible when they are
  equal or one of them is 1.  The function works on the reversed shapes.
\<close>

fun broadcast_rev :: "nat list \<Rightarrow> nat list \<Rightarrow> nat list option" where
  "broadcast_rev [] ys = Some ys"
| "broadcast_rev xs [] = Some xs"
| "broadcast_rev (x # xs) (y # ys) =
     (if x = y \<or> y = 1 then map_option ((#) x) (broadcast_rev xs ys)
      else if x = 1 then map_option ((#) y) (broadcast_rev xs ys)
      else None)"

definition broadcast_shapes :: "nat list \<Rightarrow> nat list \<Rightarrow> nat list option" where
  "broadcast_shapes a b = map_option rev (broadcast_rev (rev a) (rev b))"

text \<open>
  The elements of an array of shape \<open>src\<close> seen at shape \<open>tgt\<close> (of the same rank): an
  axis of extent 1 is repeated.
\<close>

fun bcast_data :: "nat list \<Rightarrow> nat list \<Rightarrow> 'a list \<Rightarrow> 'a list" where
  "bcast_data (n # ns) (t # ts) d =
     (if n = t
      then concat (map (\<lambda>i. bcast_data ns ts (block (prod_list ns) i d)) [0..<n])
      else concat (replicate t (bcast_data ns ts (block (prod_list ns) 0 d))))"
| "bcast_data _ _ d = d"

definition broadcast_to :: "'a ndarray \<Rightarrow> nat list \<Rightarrow> 'a list" where
  "broadcast_to a sh =
     bcast_data (replicate (length sh - length (shape a)) 1 @ shape a) sh (data a)"

text \<open>A binary elementwise operation; shapes that do not broadcast raise \<^verbatim>\<open>ValueError\<close>.\<close>

definition broadcast_op ::
  "('a \<Rightarrow> 'b \<Rightarrow> 'c) \<Rightarrow> 'a ndarray \<Rightarrow> 'b ndarray \<Rightarrow> error + 'c ndarray" where
  "broadcast_op f a b =
     (case broadcast_shapes (shape a) (shape b) of
        None \<Rightarrow> Inl ValueError
      | Some sh \<Rightarrow>
          Inr \<lparr>shape = sh, data = map2 f (broadcast_to a sh) (broadcast_to b sh)\<rparr>)"

text \<open>
  An in-place operation \<^verbatim>\<open>a op= b\<close>: the output operand \<open>a\<close> is not broadcast, so the
  broadcast shape of the operands has to be the shape of \<open>a\<close>.
\<close>

definition inplace_op ::
  "('a \<Rightarrow> 'b \<Rightarrow> 'a) \<Rightarrow> 'a ndarray \<Rightarrow> 'b ndarray \<Rightarrow> error + 'a ndarray" where
  "inplace_op f a b =
     (if broadcast_shapes (shape a) (shape b) = Some (shape a)
      then Inr \<lparr>shape = shape a, data = map2 f (data a) (broadcast_to b (shape a))\<rparr>
      else Inl ValueError)"

section \<open>The store\<close>

text \<open>
  Arrays are objects: an attribute or a dictionary entry holds a reference to one.
  \<^verbatim>\<open>fit\<close> updates \<^verbatim>\<open>_neuron_nonzero\<close> in place (\<^verbatim>\<open>+=\<close>), which every holder of the
  reference observes, whereas \<^verbatim>\<open>m\<close> and \<^verbatim>\<open>s\<close> are rebound to newly built arrays.  The
  store maps addresses to arrays, float arrays and \<^verbatim>\<open>long\<close> arrays apart; \<open>next_addr\<close>
  is the next unused address, and what the maps hold from there on is of no account.
\<close>

type_synonym addr = nat

record store =
  float_arrays :: "addr \<Rightarrow> npfloat ndarray"
  long_arrays :: "addr \<Rightarrow> int ndarray"
  next_addr :: addr

definition empty_store :: store where
  "empty_store =
     \<lparr>float_arrays = (\<lambda>_. \<lparr>shape = [], data = []\<rparr>),
      long_arrays = (\<lambda>_. \<lparr>shape = [], data = []\<rparr>),
      next_addr = 0\<rparr>"

definition new_float :: "store \<Rightarrow> npfloat ndarray \<Rightarrow> addr \<times> store" where
  "new_float st a =
     (next_addr st,
      st\<lparr>float_arrays := (float_arrays st)(next_addr st := a),
         next_addr := Suc (next_addr st)\<rparr>)"

definition new_long :: "store \<Rightarrow> int ndarray \<Rightarrow> addr \<times> store" where
  "new_long st a =
     (next_addr st,
      st\<lparr>long_arrays := (long_arrays st)(next_addr st := a),
         next_addr := Suc (next_addr st)\<rparr>)"

text \<open>
  The \<^verbatim>\<open>long\<close> counters are 64-bit signed integers (the C \<^verbatim>\<open>long\<close> of an LP64
  platform): an addition wraps around.
\<close>

definition wrap_long :: "int \<Rightarrow> int" where
  "wrap_long v = (v + 2 ^ 63) mod 2 ^ 64 - 2 ^ 63"

definition add_bool :: "int \<Rightarrow> bool \<Rightarrow> int" where
  "add_bool c b = wrap_long (c + (if b then 1 else 0))"

section \<open>WelfordEstimator\<close>

text \<open>
  The attributes \<^verbatim>\<open>m\<close>, \<^verbatim>\<open>s\<close>, \<^verbatim>\<open>_n_samples\<close> and \<^verbatim>\<open>_neuron_nonzero\<close>.  An array
  attribute is \<open>None\<close> (Python's \<^verbatim>\<open>None\<close>) or the address of an array.
\<close>

record WelfordEstimator =
  est_m :: "addr option"
  est_s :: "addr option"
  est_n_samples :: int
  est_neuron_nonzero :: "addr option"

text \<open>\<^verbatim>\<open>__init__\<close>\<close>

definition WelfordEstimator_init :: WelfordEstimator where
  "WelfordEstimator_init =
     \<lparr>est_m = None, est_s = None, est_n_samples = 0, est_neuron_nonzero = None\<rparr>"

text \<open>
  The first statement of \<^verbatim>\<open>fit\<close>: while no sample has been counted, the three arrays
  are allocated anew with the shape \<^verbatim>\<open>x.shape[1:]\<close>.
\<close>

definition fit_init :: "WelfordEstimator \<Rightarrow> store \<Rightarrow> npfloat ndarray \<Rightarrow> WelfordEstimator \<times> store" where
  "fit_init e st x =
     (if est_n_samples e = 0 then
        (let sh = tl (shape x);
             (a_m, st1) = new_float st (zeros sh);
             (a_s, st2) = new_float st1 (zeros sh);
             (a_n, st3) = new_long st2 (zeros_long sh)
         in (e\<lparr>est_m := Some a_m, est_s := Some a_s, est_neuron_nonzero := Some a_n\<rparr>, st3))
      else (e, st))"

text \<open>\<^verbatim>\<open>self.m + (xi-self.m) / (self._n_samples + 1)\<close>\<close>

definition welford_m :: "npfloat ndarray \<Rightarrow> npfloat ndarray \<Rightarrow> int \<Rightarrow> error + npfloat ndarray" where
  "welford_m old_m xi n =
     (case broadcast_op fsub xi old_m of
        Inl err \<Rightarrow> Inl err
      | Inr d \<Rightarrow> broadcast_op fadd old_m (map_array (\<lambda>v. fdiv v (Fin (real_of_int (n + 1)))) d))"

text \<open>\<^verbatim>\<open>(xi-self.m) * (xi-old_m)\<close>, with \<^verbatim>\<open>self.m\<close> already updated.\<close>

definition welford_s_term ::
  "npfloat ndarray \<Rightarrow> npfloat ndarray \<Rightarrow> npfloat ndarray \<Rightarrow> error + npfloat ndarray" where
  "welford_s_term xi new_m old_m =
     (case broadcast_op fsub xi new_m of
        Inl err \<Rightarrow> Inl err
      | Inr d1 \<Rightarrow>
          (case broadcast_op fsub xi old_m of
             Inl err \<Rightarrow> Inl err
           | Inr d2 \<Rightarrow> broadcast_op fmul d1 d2))"

text \<open>
  The body of the loop of \<^verbatim>\<open>fit\<close> for one sample \<open>xi\<close>, in three parts.  The result of
  each is the exception raised, if any, and the estimator and the store as the
  statements executed so far have left them.  An attribute that is \<^verbatim>\<open>None\<close> where an
  array is used raises \<^verbatim>\<open>TypeError\<close> (an operator) or \<^verbatim>\<open>AttributeError\<close>
  (\<^verbatim>\<open>.copy()\<close>); no call of \<^verbatim>\<open>fit\<close> leaves an estimator in such a state, only a
  state dictionary made by hand does.
\<close>

text \<open>
  \<^verbatim>\<open>self.s = self.s + (xi-self.m) * (xi-old_m)\<close> and \<^verbatim>\<open>self._n_samples += 1\<close>; the
  product is evaluated before the sum.
\<close>

definition update_s ::
  "WelfordEstimator \<Rightarrow> store \<Rightarrow> npfloat ndarray \<Rightarrow> npfloat ndarray \<Rightarrow> npfloat ndarray \<Rightarrow>
   error option \<times> WelfordEstimator \<times> store" where
  "update_s e st xi new_m old_m =
     (case welford_s_term xi new_m old_m of
        Inl err \<Rightarrow> (Some err, e, st)
      | Inr p \<Rightarrow>
          (case est_s e of
             None \<Rightarrow> (Some TypeError, e, st)
           | Some a_s \<Rightarrow>
               (case broadcast_op fadd (float_arrays st a_s) p of
                  Inl err \<Rightarrow> (Some err, e, st)
                | Inr new_s \<Rightarrow>
                    (let (a_s', st') = new_float st new_s
                     in (None, e\<lparr>est_s := Some a_s', est_n_samples := est_n_samples e + 1\<rparr>, st')))))"

text \<open>
  \<^verbatim>\<open>old_m = self.m.copy()\<close> and \<^verbatim>\<open>self.m = self.m + (xi-self.m) / (self._n_samples + 1)\<close>,
  which binds \<^verbatim>\<open>self.m\<close> to a new array.
\<close>

definition update_m ::
  "WelfordEstimator \<Rightarrow> store \<Rightarrow> npfloat ndarray \<Rightarrow> error option \<times> WelfordEstimator \<times> store" where
  "update_m e st xi =
     (case est_m e of
        None \<Rightarrow> (Some AttributeError, e, st)
      | Some a_m \<Rightarrow>
          (let old_m = float_arrays st a_m in
           case welford_m old_m xi (est_n_samples e) of
             Inl err \<Rightarrow> (Some err, e, st)
           | Inr new_m \<Rightarrow>
               (let (a_m', st') = new_float st new_m
                in update_s (e\<lparr>est_m := Some a_m'\<rparr>) st' xi new_m old_m)))"

text \<open>\<^verbatim>\<open>self._neuron_nonzero += (xi != 0.)\<close>, in place, and the rest of the body.\<close>

definition fit_sample ::
  "WelfordEstimator \<Rightarrow> store \<Rightarrow> npfloat ndarray \<Rightarrow> error option \<times> WelfordEstimator \<times> store" where
  "fit_sample e st xi =
     (case est_neuron_nonzero e of
        None \<Rightarrow> (Some TypeError, e, st)
      | Some a_n \<Rightarrow>
          (case inplace_op add_bool (long_arrays st a_n) (map_array f_ne_zero xi) of
             Inl err \<Rightarrow> (Some err, e, st)
           | Inr nz \<Rightarrow> update_m e (st\<lparr>long_arrays := (long_arrays st)(a_n := nz)\<rparr>) xi))"

text \<open>The loop \<^verbatim>\<open>for xi in x\<close>: an exception ends it and keeps the state reached.\<close>

fun fit_loop ::
  "WelfordEstimator \<Rightarrow> store \<Rightarrow> npfloat ndarray list \<Rightarrow> error option \<times> WelfordEstimator \<times> store" where
  "fit_loop e st [] = (None, e, st)"
| "fit_loop e st (xi # xs) =
     (case fit_sample e st xi of
        (Some err, e', st') \<Rightarrow> (Some err, e', st')
      | (None, e', st') \<Rightarrow> fit_loop e' st' xs)"

text \<open>
  \<^verbatim>\<open>fit\<close> returns its argument, or raises; either way the estimator and the store are
  as the call has left them.
\<close>

definition fit ::
  "WelfordEstimator \<Rightarrow> store \<Rightarrow> npfloat ndarray \<Rightarrow> (error + npfloat ndarray) \<times> WelfordEstimator \<times> store" where
  "fit e st x =
     (let (e0, st0) = fit_init e st x in
      case rows x of
        Inl err \<Rightarrow> (Inl err, e0, st0)
      | Inr xs \<Rightarrow>
          (case fit_loop e0 st0 xs of
             (Some err, e', st') \<Rightarrow> (Inl err, e', st')
           | (None, e', st') \<Rightarrow> (Inr x, e', st')))"

definition n_samples :: "WelfordEstimator \<Rightarrow> int" where
  "n_samples e = est_n_samples e"

text \<open>\<^verbatim>\<open>mean\<close> returns the attribute \<^verbatim>\<open>m\<close> itself: a reference, or \<^verbatim>\<open>None\<close>.\<close>

definition mean :: "WelfordEstimator \<Rightarrow> addr option" where
  "mean e = est_m e"

text \<open>\<^verbatim>\<open>np.sqrt(self.s / (self._n_samples - 1))\<close>; NumPy divides by zero without raising.\<close>

definition std :: "WelfordEstimator \<Rightarrow> store \<Rightarrow> error + npfloat ndarray" where
  "std e st =
     (case est_s e of
        None \<Rightarrow> Inl TypeError
      | Some a_s \<Rightarrow>
          Inr (map_array (\<lambda>v. fsqrt (fdiv v (Fin (real_of_int (est_n_samples e - 1)))))
                 (float_arrays st a_s)))"

text \<open>
  \<^verbatim>\<open>(self._neuron_nonzero.astype(np.float32) / self._n_samples) > threshold\<close>; the
  argument \<open>None\<close> stands for the default \<^verbatim>\<open>threshold=0.01\<close>, a Python float (binary64).
  The counts are converted to \<^verbatim>\<open>float32\<close>; the sample count and the threshold are Python
  scalars, which NumPy converts to the type of the array, so that the quotient is
  computed and compared in \<^verbatim>\<open>float32\<close>.
\<close>

definition active_neurons ::
  "WelfordEstimator \<Rightarrow> store \<Rightarrow> npfloat option \<Rightarrow> error + bool ndarray" where
  "active_neurons e st threshold =
     (let thr = (case threshold of None \<Rightarrow> Fin (binary64 (1 / 100)) | Some t \<Rightarrow> t) in
      case est_neuron_nonzero e of
        None \<Rightarrow> Inl AttributeError
      | Some a_n \<Rightarrow>
          Inr (map_array
                 (\<lambda>c. fgt (round_with float32
                               (fdiv (Fin (float32 (real_of_int c)))
                                     (Fin (float32 (real_of_int (est_n_samples e))))))
                           (round_with float32 thr))
                 (long_arrays st a_n)))"

subsection \<open>State dictionaries\<close>

text \<open>The values of a state dictionary: a float array reference, an integer, a long array reference.\<close>

datatype sval = SFloatArr "addr option" | SInt int | SLongArr "addr option"

definition state_dict :: "WelfordEstimator \<Rightarrow> (string \<rightharpoonup> sval)" where
  "state_dict e =
     map_of
       [(''m'', SFloatArr (est_m e)),
        (''s'', SFloatArr (est_s e)),
        (''n_samples'', SInt (est_n_samples e)),
        (''neuron_nonzero'', SLongArr (est_neuron_nonzero e))]"

text \<open>
  \<^verbatim>\<open>load_state_dict\<close> assigns the four attributes in turn; a missing key raises
  \<^verbatim>\<open>KeyError\<close> after the assignments before it.
\<close>

definition load_state_dict ::
  "WelfordEstimator \<Rightarrow> (string \<rightharpoonup> sval) \<Rightarrow> error option \<times> WelfordEstimator" where
  "load_state_dict e state =
     (case state ''m'' of
        None \<Rightarrow> (Some KeyError, e)
      | Some (SFloatArr vm) \<Rightarrow>
          (let e1 = e\<lparr>est_m := vm\<rparr> in
           case state ''s'' of
             None \<Rightarrow> (Some KeyError, e1)
           | Some (SFloatArr vs) \<Rightarrow>
               (let e2 = e1\<lparr>est_s := vs\<rparr> in
                case state ''n_samples'' of
                  None \<Rightarrow> (Some KeyError, e2)
                | Some (SInt vn) \<Rightarrow>
                    (let e3 = e2\<lparr>est_n_samples := vn\<rparr> in
                     case state ''neuron_nonzero'' of
                       None \<Rightarrow> (Some KeyError, e3)
                     | Some (SLongArr vz) \<Rightarrow> (None, e3\<lparr>est_neuron_nonzero := vz\<rparr>)
                     | Some _ \<Rightarrow> (Some IllKinded, e3))
                | Some _ \<Rightarrow> (Some IllKinded, e2))
           | Some _ \<Rightarrow> (Some IllKinded, e1))
      | Some _ \<Rightarrow> (Some IllKinded, e))"

section \<open>to_saliency_map\<close>

text \<open>\<^verbatim>\<open>np.nansum\<close> replaces not-a-number by zero and sums.\<close>

fun nan_to_zero :: "npfloat \<Rightarrow> npfloat" where
  "nan_to_zero NaN = Fin 0"
| "nan_to_zero v = v"

definition fsum :: "npfloat list \<Rightarrow> npfloat" where
  "fsum vs = foldl fadd (Fin 0) vs"

text \<open>
  The sum along axis 0 adds up the sub-arrays along the first axis, element by element.
  For a zero-dimensional argument NumPy accepts the axes 0 and -1 and sums the one
  element.
\<close>

definition sum_axis0 :: "npfloat ndarray \<Rightarrow> npfloat ndarray" where
  "sum_axis0 a =
     (case shape a of
        [] \<Rightarrow> a
      | c # rest \<Rightarrow>
          \<lparr>shape = rest,
           data = foldl (map2 fadd) (replicate (prod_list rest) (Fin 0))
                    (map (\<lambda>i. block (prod_list rest) i (data a)) [0..<c])\<rparr>)"

text \<open>The sum along the last axis adds up each block of consecutive elements.\<close>

definition sum_axis_last :: "npfloat ndarray \<Rightarrow> npfloat ndarray" where
  "sum_axis_last a =
     (case shape a of
        [] \<Rightarrow> a
      | _ # _ \<Rightarrow>
          \<lparr>shape = butlast (shape a),
           data = map (\<lambda>j. fsum (block (last (shape a)) j (data a)))
                    [0..<prod_list (butlast (shape a))]\<rparr>)"

definition nansum_axis0 :: "npfloat ndarray \<Rightarrow> npfloat ndarray" where
  "nansum_axis0 a = sum_axis0 (map_array nan_to_zero a)"

definition nansum_axis_last :: "npfloat ndarray \<Rightarrow> npfloat ndarray" where
  "nansum_axis_last a = sum_axis_last (map_array nan_to_zero a)"

text \<open>
  \<^verbatim>\<open>skimage.transform.resize\<close> is not part of the module: it is the parameter \<open>resize\<close>,
  called with the image, the output shape, the interpolation order and the flag
  \<^verbatim>\<open>preserve_range\<close>.  The argument \<open>shp\<close> is \<^verbatim>\<open>shape\<close>, \<open>None\<close> or a sequence of
  integers.  When \<^verbatim>\<open>data_format\<close> is neither string, \<^verbatim>\<open>saliency_map\<close> is unbound at its
  first use.
\<close>

definition to_saliency_map ::
  "(npfloat ndarray \<Rightarrow> int list \<Rightarrow> nat \<Rightarrow> bool \<Rightarrow> error + npfloat ndarray) \<Rightarrow>
   npfloat ndarray \<Rightarrow> int list option \<Rightarrow> string \<Rightarrow> error + npfloat ndarray" where
  "to_saliency_map resize capacity shp data_format =
     (let sm0 = (if data_format = ''NCHW'' then Some (nansum_axis0 capacity) else None);
          sm1 = (if data_format = ''NHWC'' then Some (nansum_axis_last capacity) else sm0)
      in case sm1 of
           None \<Rightarrow> Inl UnboundLocalError
         | Some sm \<Rightarrow>
             (let bits = map_array (\<lambda>v. fdiv v (Fin (ln 2))) sm in
              case shp of
                None \<Rightarrow> Inr bits
              | Some sh \<Rightarrow>
                  (case shape bits of
                     [ho, wo] \<Rightarrow>
                       (case sh of
                          [h, w] \<Rightarrow>
                            if h * w = 0 then Inl ZeroDivisionError
                            else resize
                                   (map_array
                                      (\<lambda>v. fmul v (Fin (real_of_int (int ho * int wo) / real_of_int (h * w))))
                                      bits)
                                   sh 1 True
                        | _ \<Rightarrow> Inl ValueError)
                   | _ \<Rightarrow> Inl ValueError)))"

subsection \<open>The channel-first reduction with rounding\<close>

text \<open>
  The computation of \<^verbatim>\<open>to_saliency_map\<close> for \<^verbatim>\<open>data_format='NCHW'\<close> and no target shape,
  with the rounding of every addition and of every division written out: \<open>rnd\<close> rounds a
  finite result and \<open>log2\<close> is the float \<^verbatim>\<open>float(np.log(2))\<close>.  \<^verbatim>\<open>np.nansum(capacity, 0)\<close>
  replaces not-a-number by zero and adds the sub-arrays along axis 0 one after the
  other, starting from zero; this is the order of NumPy's sum along an axis of a
  C-contiguous array as long as the other axes have more than one element together.
  (Along the contiguous axis NumPy adds pairwise; that order is not modelled with
  rounding.)
\<close>

definition sum_axis0_rounded :: "(real \<Rightarrow> real) \<Rightarrow> npfloat ndarray \<Rightarrow> npfloat ndarray" where
  "sum_axis0_rounded rnd a =
     (case shape a of
        [] \<Rightarrow> a
      | c # rest \<Rightarrow>
          \<lparr>shape = rest,
           data = foldl (map2 (\<lambda>u v. round_with rnd (fadd u v))) (replicate (prod_list rest) (Fin 0))
                    (map (\<lambda>i. block (prod_list rest) i (data a)) [0..<c])\<rparr>)"

definition to_saliency_map_nchw :: "(real \<Rightarrow> real) \<Rightarrow> real \<Rightarrow> npfloat ndarray \<Rightarrow> npfloat ndarray" where
  "to_saliency_map_nchw rnd log2 capacity =
     map_array (\<lambda>v. round_with rnd (fdiv v (Fin log2)))
       (sum_axis0_rounded rnd (map_array nan_to_zero capacity))"

text \<open>The binary64 number that \<^verbatim>\<open>float(np.log(2))\<close> is: 0.6931471805599453.\<close>

definition ln2_binary64 :: real where
  "ln2_binary64 = 6243314768165359 / 9007199254740992"

section \<open>Notions used in the statements\<close>

text \<open>
  The channel reduction of \<^verbatim>\<open>to_saliency_map\<close> for a recognised \<^verbatim>\<open>data_format\<close>:
  \<^verbatim>\<open>np.nansum(capacity, -1)\<close> for \<^verbatim>\<open>'NHWC'\<close>, \<^verbatim>\<open>np.nansum(capacity, 0)\<close> for \<^verbatim>\<open>'NCHW'\<close>.
\<close>

definition reduce_channels :: "string \<Rightarrow> npfloat ndarray \<Rightarrow> npfloat ndarray" where
  "reduce_channels data_format capacity =
     (if data_format = ''NHWC'' then nansum_axis_last capacity else nansum_axis0 capacity)"

text \<open>
  Two stand-ins for the resampling routine in evaluations: one that always raises, for
  calls that do not reach it, and one that hands back the image it is given provided it
  is asked for bilinear interpolation with the range preserved.
\<close>

definition no_resize :: "npfloat ndarray \<Rightarrow> int list \<Rightarrow> nat \<Rightarrow> bool \<Rightarrow> error + npfloat ndarray" where
  "no_resize img sh order preserve_range = Inl ValueError"

definition resize_args :: "npfloat ndarray \<Rightarrow> int list \<Rightarrow> nat \<Rightarrow> bool \<Rightarrow> error + npfloat ndarray" where
  "resize_args img sh order preserve_range =
     (if order = 1 \<and> preserve_range then Inr img else Inl ValueError)"

text \<open>The batch of the three samples \<open>[1, 0]\<close>, \<open>[1, 0]\<close>, \<open>[0, 0]\<close>.\<close>

definition batch_210 :: "npfloat ndarray" where
  "batch_210 = \<lparr>shape = [3, 2], data = [Fin 1, Fin 0, Fin 1, Fin 0, Fin 0, Fin 0]\<rparr>"

text \<open>
  The reduction in the words of the specification: a sum that leaves out the entries
  that are not-a-number, taken over the values of all channels at one location \<open>j\<close> of
  the map, for a channel-first and for a channel-last array.
\<close>

definition skip_nan_sum :: "npfloat list \<Rightarrow> npfloat" where
  "skip_nan_sum vs = fsum (filter (\<lambda>v. v \<noteq> NaN) vs)"

definition channel_first_values :: "npfloat ndarray \<Rightarrow> nat \<Rightarrow> npfloat list" where
  "channel_first_values a j =
     map (\<lambda>i. data a ! (i * prod_list (tl (shape a)) + j)) [0..<hd (shape a)]"

definition channel_last_values :: "npfloat ndarray \<Rightarrow> nat \<Rightarrow> npfloat list" where
  "channel_last_values a j =
     map (\<lambda>i. data a ! (j * last (shape a) + i)) [0..<last (shape a)]"

text \<open>
  The invariant of the estimator: either nothing has been allocated and no sample
  counted, or the three arrays exist, the float arrays are allocated, all three have the
  same shape (the feature shape), and every nonzero counter lies between the least
  \<^verbatim>\<open>long\<close> and the sample count.
\<close>

definition est_inv :: "WelfordEstimator \<Rightarrow> store \<Rightarrow> bool" where
  "est_inv e st =
     (case (est_m e, est_s e, est_neuron_nonzero e) of
        (None, None, None) \<Rightarrow> est_n_samples e = 0
      | (Some a_m, Some a_s, Some a_n) \<Rightarrow>
          a_m < next_addr st \<and> a_s < next_addr st
          \<and> shape (float_arrays st a_m) = shape (long_arrays st a_n)
          \<and> shape (float_arrays st a_s) = shape (long_arrays st a_n)
          \<and> list_all (\<lambda>c. - (2 ^ 63) \<le> c \<and> c \<le> est_n_samples e) (data (long_arrays st a_n))
      | _ \<Rightarrow> False)"

text \<open>Every nonzero counter is at most the sample count.\<close>

definition counts_bounded :: "WelfordEstimator \<Rightarrow> store \<Rightarrow> bool" where
  "counts_bounded e st =
     (case est_neuron_nonzero e of
        None \<Rightarrow> True
      | Some a_n \<Rightarrow> list_all (\<lambda>c. c \<le> n_samples e) (data (long_arrays st a_n)))"

text \<open>
  The states of an estimator after any sequence of calls of \<^verbatim>\<open>fit\<close> on a new estimator,
  whether a call returns or raises, in any store.
\<close>

inductive reachable :: "WelfordEstimator \<Rightarrow> store \<Rightarrow> bool" where
  reachable_init: "reachable WelfordEstimator_init st"
| reachable_fit: "reachable e st \<Longrightarrow> fit e st x = (r, e', st') \<Longrightarrow> reachable e' st'"


text \<open>The estimator and the store after fitting \<open>batch_210\<close> to a new estimator.\<close>

definition est_210 :: WelfordEstimator where
  "est_210 = fst (snd (fit WelfordEstimator_init empty_store batch_210))"

definition store_210 :: store where
  "store_210 = snd (snd (fit WelfordEstimator_init empty_store batch_210))"

text \<open>A batch of scalar-shaped samples, and a zero-dimensional array holding a real number.\<close>

definition batch1 :: "real list \<Rightarrow> npfloat ndarray" where
  "batch1 vs = \<lparr>shape = [length vs], data = map Fin vs\<rparr>"

definition scalar :: "real \<Rightarrow> npfloat ndarray" where
  "scalar v = \<lparr>shape = [], data = [Fin v]\<rparr>"

text \<open>Successive calls of \<^verbatim>\<open>fit\<close> by one caller; the first exception ends the sequence.\<close>

fun fit_all ::
  "WelfordEstimator \<Rightarrow> store \<Rightarrow> npfloat ndarray list \<Rightarrow> error option \<times> WelfordEstimator \<times> store" where
  "fit_all e st [] = (None, e, st)"
| "fit_all e st (x # xs) =
     (case fit e st x of
        (Inl err, e', st') \<Rightarrow> (Some err, e', st')
      | (Inr _, e', st') \<Rightarrow> fit_all e' st' xs)"

text \<open>
  Welford's update in the words of the specification, on one location: with
  \<open>k = sample_count + 1\<close>, the mean becomes \<open>mean + (x - mean) / k\<close>, the sum of squared
  deviations grows by \<open>(x - mean) * (x - old_mean)\<close> with the updated mean in the first
  factor, and the sample count becomes \<open>k\<close>.
\<close>

fun welford_step :: "real \<times> real \<times> int \<Rightarrow> real \<Rightarrow> real \<times> real \<times> int" where
  "welford_step (mean_v, sum_sq_dev, sample_count) x =
     (let k = sample_count + 1;
          old_mean = mean_v;
          new_mean = mean_v + (x - mean_v) / real_of_int k
      in (new_mean, sum_sq_dev + (x - new_mean) * (x - old_mean), k))"

text \<open>
  An estimator of scalar-shaped samples holds the mean, the sum of squared deviations
  and the count \<open>t\<close>; before the first sample whatever it holds is reset by \<^verbatim>\<open>fit\<close>.
\<close>

definition scalar_state :: "WelfordEstimator \<Rightarrow> store \<Rightarrow> real \<times> real \<times> int \<Rightarrow> bool" where
  "scalar_state e st t =
     (case t of (mv, sv, n) \<Rightarrow>
        est_n_samples e = n \<and> 0 \<le> n
        \<and> (\<exists>a_m a_s a_n. est_m e = Some a_m \<and> est_s e = Some a_s \<and> est_neuron_nonzero e = Some a_n
              \<and> a_s < next_addr st
              \<and> float_arrays st a_m = scalar mv \<and> float_arrays st a_s = scalar sv
              \<and> shape (long_arrays st a_n) = []))"

definition scalar_view :: "WelfordEstimator \<Rightarrow> store \<Rightarrow> real \<times> real \<times> int \<Rightarrow> bool" where
  "scalar_view e st t =
     (t = (0, 0, 0) \<and> est_n_samples e = 0 \<or> 0 < snd (snd t) \<and> scalar_state e st t)"

text \<open>
  A well-formed estimator: either nothing has been allocated and no sample counted, or
  the three arrays are allocated and have one shape, the feature shape.
\<close>

definition est_wf :: "WelfordEstimator \<Rightarrow> store \<Rightarrow> bool" where
  "est_wf e st =
     (case (est_m e, est_s e, est_neuron_nonzero e) of
        (None, None, None) \<Rightarrow> est_n_samples e = 0
      | (Some a_m, Some a_s, Some a_n) \<Rightarrow>
          a_m < next_addr st \<and> a_s < next_addr st \<and> a_n < next_addr st
          \<and> shape (float_arrays st a_m) = shape (long_arrays st a_n)
          \<and> shape (float_arrays st a_s) = shape (long_arrays st a_n)
      | _ \<Rightarrow> False)"

text \<open>
  The arrays that one sample \<open>xi\<close> produces when its shape can be broadcast to the feature
  shape: the new mean, the new sum of squared deviations, and the nonzero counters after
  the update in place.
\<close>

definition m_next :: "npfloat ndarray \<Rightarrow> npfloat ndarray \<Rightarrow> int \<Rightarrow> npfloat ndarray" where
  "m_next old_m xi n = (case welford_m old_m xi n of Inr v \<Rightarrow> v | Inl _ \<Rightarrow> old_m)"

definition s_next :: "npfloat ndarray \<Rightarrow> npfloat ndarray \<Rightarrow> npfloat ndarray \<Rightarrow> int \<Rightarrow> npfloat ndarray" where
  "s_next old_s old_m xi n =
     (case welford_s_term xi (m_next old_m xi n) old_m of
        Inl _ \<Rightarrow> old_s
      | Inr p \<Rightarrow> (case broadcast_op fadd old_s p of Inr v \<Rightarrow> v | Inl _ \<Rightarrow> old_s))"

definition nz_next :: "int ndarray \<Rightarrow> npfloat ndarray \<Rightarrow> int ndarray" where
  "nz_next nz xi =
     \<lparr>shape = shape nz,
      data = map2 add_bool (data nz) (broadcast_to (map_array f_ne_zero xi) (shape nz))\<rparr>"

text \<open>The shape of the sample can be broadcast to the shape \<open>sh\<close>.\<close>

definition sample_ok :: "nat list \<Rightarrow> npfloat ndarray \<Rightarrow> bool" where
  "sample_ok sh xi = (broadcast_shapes sh (shape xi) = Some sh)"

text \<open>
  Two estimators, each in its store, hold the same sample count, the same mean and sum
  of squared deviations and nonzero counters of the same shape; and the same nonzero
  counters.
\<close>

definition same_floats :: "WelfordEstimator \<Rightarrow> store \<Rightarrow> WelfordEstimator \<Rightarrow> store \<Rightarrow> bool" where
  "same_floats e st e' st' =
     (est_n_samples e = est_n_samples e'
      \<and> map_option (float_arrays st) (est_m e) = map_option (float_arrays st') (est_m e')
      \<and> map_option (float_arrays st) (est_s e) = map_option (float_arrays st') (est_s e')
      \<and> map_option (\<lambda>a. shape (long_arrays st a)) (est_neuron_nonzero e)
          = map_option (\<lambda>a. shape (long_arrays st' a)) (est_neuron_nonzero e'))"

definition same_counts :: "WelfordEstimator \<Rightarrow> store \<Rightarrow> WelfordEstimator \<Rightarrow> store \<Rightarrow> bool" where
  "same_counts e st e' st' =
     (map_option (long_arrays st) (est_neuron_nonzero e)
        = map_option (long_arrays st') (est_neuron_nonzero e'))"

text \<open>
  From the store \<open>st\<close> to the store \<open>st'\<close>, below the address \<open>B\<close> no float array has
  changed, no \<^verbatim>\<open>long\<close> array has changed its shape, and no \<^verbatim>\<open>long\<close> array outside \<open>W\<close>
  has changed.
\<close>

definition unchanged :: "addr \<Rightarrow> addr set \<Rightarrow> store \<Rightarrow> store \<Rightarrow> bool" where
  "unchanged B W st st' =
     (\<forall>a < B. float_arrays st' a = float_arrays st a
              \<and> shape (long_arrays st' a) = shape (long_arrays st a)
              \<and> (a \<notin> W \<longrightarrow> long_arrays st' a = long_arrays st a))"

text \<open>The estimator and the store after one sample has been fitted.\<close>

definition post_est :: "WelfordEstimator \<Rightarrow> store \<Rightarrow> WelfordEstimator" where
  "post_est e st =
     e\<lparr>est_m := Some (next_addr st), est_s := Some (Suc (next_addr st)),
       est_n_samples := est_n_samples e + 1\<rparr>"

definition post_store :: "store \<Rightarrow> npfloat ndarray \<Rightarrow> npfloat ndarray \<Rightarrow> addr \<Rightarrow> int ndarray \<Rightarrow> store" where
  "post_store st new_m new_s a_n nz =
     st\<lparr>float_arrays := (float_arrays st)(next_addr st := new_m, Suc (next_addr st) := new_s),
        long_arrays := (long_arrays st)(a_n := nz),
        next_addr := Suc (Suc (next_addr st))\<rparr>"

text \<open>The estimator and the store after the allocation of the three arrays.\<close>

definition init_est :: "WelfordEstimator \<Rightarrow> store \<Rightarrow> WelfordEstimator" where
  "init_est e st =
     e\<lparr>est_m := Some (next_addr st), est_s := Some (Suc (next_addr st)),
       est_neuron_nonzero := Some (Suc (Suc (next_addr st)))\<rparr>"

definition init_store :: "store \<Rightarrow> nat list \<Rightarrow> store" where
  "init_store st sh =
     st\<lparr>float_arrays := (float_arrays st)(next_addr st := zeros sh, Suc (next_addr st) := zeros sh),
        long_arrays := (long_arrays st)(Suc (Suc (next_addr st)) := zeros_long sh),
        next_addr := Suc (Suc (Suc (next_addr st)))\<rparr>"

text \<open>
  Two estimators in one store, the original and the one restored from its state
  dictionary, and a sequence of calls of \<^verbatim>\<open>fit\<close>, each on one of the two.  Every call is
  made, whether the one before returned or raised; the outcomes are recorded in order.
\<close>

datatype caller = Original | Restored

fun fit_calls ::
  "WelfordEstimator \<Rightarrow> WelfordEstimator \<Rightarrow> store \<Rightarrow> (caller \<times> npfloat ndarray) list \<Rightarrow>
   (caller \<times> (error + npfloat ndarray)) list \<times> WelfordEstimator \<times> WelfordEstimator \<times> store" where
  "fit_calls eA eB st [] = ([], eA, eB, st)"
| "fit_calls eA eB st ((Original, x) # cs) =
     (case fit eA st x of
        (r, eA', st') \<Rightarrow>
          (case fit_calls eA' eB st' cs of (rs, fin) \<Rightarrow> ((Original, r) # rs, fin)))"
| "fit_calls eA eB st ((Restored, x) # cs) =
     (case fit eB st x of
        (r, eB', st') \<Rightarrow>
          (case fit_calls eA eB' st' cs of (rs, fin) \<Rightarrow> ((Restored, r) # rs, fin)))"

text \<open>The batches, or the outcomes, that belong to one of the two estimators.\<close>

definition calls_of :: "caller \<Rightarrow> (caller \<times> 'a) list \<Rightarrow> 'a list" where
  "calls_of c cs = map snd (filter (\<lambda>p. fst p = c) cs)"

text \<open>The calls of one estimator alone, with their outcomes.\<close>

fun fit_seq ::
  "WelfordEstimator \<Rightarrow> store \<Rightarrow> npfloat ndarray list \<Rightarrow>
   (error + npfloat ndarray) list \<times> WelfordEstimator \<times> store" where
  "fit_seq e st [] = ([], e, st)"
| "fit_seq e st (x # xs) =
     (case fit e st x of
        (r, e', st') \<Rightarrow> (case fit_seq e' st' xs of (rs, fin) \<Rightarrow> (r # rs, fin)))"

text \<open>
  The two estimators either update one and the same array of nonzero counters, or
  update different arrays; \<open>paired\<close> relates each of the two, in the common store, to
  its own run alone.
\<close>

definition shared_counts :: "WelfordEstimator \<Rightarrow> WelfordEstimator \<Rightarrow> bool" where
  "shared_counts eP eQ =
     (est_n_samples eP \<noteq> 0 \<and> est_n_samples eQ \<noteq> 0 \<and> est_neuron_nonzero eP = est_neuron_nonzero eQ)"

definition separate_counts :: "WelfordEstimator \<Rightarrow> WelfordEstimator \<Rightarrow> bool" where
  "separate_counts eP eQ =
     (est_n_samples eP \<noteq> 0 \<or> est_n_samples eQ \<noteq> 0 \<longrightarrow> est_neuron_nonzero eP \<noteq> est_neuron_nonzero eQ)"

definition paired ::
  "WelfordEstimator \<Rightarrow> WelfordEstimator \<Rightarrow> store \<Rightarrow> WelfordEstimator \<Rightarrow> store \<Rightarrow>
   WelfordEstimator \<Rightarrow> store \<Rightarrow> bool" where
  "paired eP eQ st fP sP fQ sQ =
     (est_wf eP st \<and> est_wf eQ st \<and> est_wf fP sP \<and> est_wf fQ sQ
      \<and> same_floats eP st fP sP \<and> same_floats eQ st fQ sQ
      \<and> 0 \<le> est_n_samples eP \<and> 0 \<le> est_n_samples eQ
      \<and> (shared_counts eP eQ
          \<or> separate_counts eP eQ \<and> same_counts eP st fP sP \<and> same_counts eQ st fQ sQ))"

text \<open>
  The sum of a list of values with not-a-number replaced by zero, every addition rounded,
  and the rounded sum of \<open>k\<close> copies of one number.
\<close>

definition rounded_nansum :: "(real \<Rightarrow> real) \<Rightarrow> npfloat list \<Rightarrow> npfloat" where
  "rounded_nansum rnd vs = foldl (\<lambda>u v. round_with rnd (fadd u v)) (Fin 0) (map nan_to_zero vs)"

fun repeated_sum :: "(real \<Rightarrow> real) \<Rightarrow> real \<Rightarrow> nat \<Rightarrow> real" where
  "repeated_sum rnd x 0 = 0"
| "repeated_sum rnd x (Suc k) = rnd (repeated_sum rnd x k + x)"

section \<open>Properties\<close>

lemmas fit_defs = fit_def fit_init_def rows_def block_def fit_sample_def update_m_def update_s_def
   welford_m_def welford_s_term_def broadcast_op_def inplace_op_def broadcast_shapes_def broadcast_to_def
   new_float_def new_long_def zeros_def zeros_long_def full_def map_array_def add_bool_def wrap_long_def
   WelfordEstimator_init_def fsub_def Let_def

subsection \<open>The invariant of the estimator\<close>

lemma broadcast_rev_commute: "broadcast_rev xs ys = broadcast_rev ys xs"
proof (induction xs ys rule: broadcast_rev.induct)
  case (1 ys)
  show ?case by (cases ys) simp_all
next
  case (2 x xs)
  show ?case by simp
next
  case (3 x xs y ys)
  then show ?case by auto
qed

lemma broadcast_rev_same: "broadcast_rev xs xs = Some xs"
  by (induction xs) simp_all

lemma broadcast_shapes_commute: "broadcast_shapes a b = broadcast_shapes b a"
  by (simp add: broadcast_shapes_def broadcast_rev_commute)

lemma broadcast_shapes_same: "broadcast_shapes a a = Some a"
  by (simp add: broadcast_shapes_def broadcast_rev_same)

lemma broadcast_op_shape:
  assumes "broadcast_shapes (shape a) (shape b) = Some sh"
  shows "\<exists>r. broadcast_op f a b = Inr r \<and> shape r = sh"
  using assms by (simp add: broadcast_op_def)

lemma welford_m_ok:
  assumes "broadcast_shapes (shape old_m) (shape xi) = Some (shape old_m)"
  shows "\<exists>new_m. welford_m old_m xi n = Inr new_m \<and> shape new_m = shape old_m"
proof -
  have "broadcast_shapes (shape xi) (shape old_m) = Some (shape old_m)"
    using assms by (simp add: broadcast_shapes_commute)
  then show ?thesis
    by (simp add: welford_m_def broadcast_op_def map_array_def broadcast_shapes_same)
qed

lemma welford_s_term_ok:
  assumes "broadcast_shapes sh (shape xi) = Some sh" and "shape new_m = sh" and "shape old_m = sh"
  shows "\<exists>p. welford_s_term xi new_m old_m = Inr p \<and> shape p = sh"
proof -
  have "broadcast_shapes (shape xi) sh = Some sh"
    using assms(1) by (simp add: broadcast_shapes_commute)
  then show ?thesis
    using assms(2,3) by (simp add: welford_s_term_def broadcast_op_def broadcast_shapes_same)
qed

lemma wrap_long_lower: "- (2 ^ 63) \<le> wrap_long v"
  by (simp add: wrap_long_def)

lemma wrap_long_upper: "- (2 ^ 63) \<le> v \<Longrightarrow> wrap_long v \<le> v"
proof -
  assume "- (2 ^ 63) \<le> v"
  then have "0 \<le> v + 2 ^ 63" by simp
  then have "(v + 2 ^ 63) mod 2 ^ 64 \<le> v + 2 ^ 63"
    by (rule zmod_le_nonneg_dividend)
  then show ?thesis by (simp add: wrap_long_def)
qed

lemma add_bool_range:
  assumes "- (2 ^ 63) \<le> c" and "c \<le> n"
  shows "- (2 ^ 63) \<le> add_bool c b \<and> add_bool c b \<le> n + 1"
proof -
  have "- (2 ^ 63) \<le> c + (if b then 1 else 0)" using assms(1) by simp
  then have "wrap_long (c + (if b then 1 else 0)) \<le> c + (if b then 1 else 0)"
    by (rule wrap_long_upper)
  then show ?thesis
    using assms(2) wrap_long_lower[of "c + (if b then 1 else 0)"] by (simp add: add_bool_def split: if_splits)
qed

lemma map2_add_bool_range:
  assumes "list_all (\<lambda>c. - (2 ^ 63) \<le> c \<and> c \<le> n) cs"
  shows "list_all (\<lambda>c. - (2 ^ 63) \<le> c \<and> c \<le> n + 1) (map2 add_bool cs bs)"
proof -
  have "\<And>c b. (c, b) \<in> set (zip cs bs) \<Longrightarrow> - (2 ^ 63) \<le> add_bool c b \<and> add_bool c b \<le> n + 1"
  proof -
    fix c b assume "(c, b) \<in> set (zip cs bs)"
    then have "c \<in> set cs" by (rule set_zip_leftD)
    then have "- (2 ^ 63) \<le> c \<and> c \<le> n" using assms by (simp add: list_all_iff)
    then show "- (2 ^ 63) \<le> add_bool c b \<and> add_bool c b \<le> n + 1"
      using add_bool_range by blast
  qed
  then show ?thesis by (auto simp: list_all_iff)
qed

lemma update_s_ok:
  assumes "est_s e = Some a_s" and "shape (float_arrays st a_s) = sh"
    and "broadcast_shapes sh (shape xi) = Some sh" and "shape new_m = sh" and "shape old_m = sh"
  shows "\<exists>new_s. shape new_s = sh \<and>
           update_s e st xi new_m old_m =
             (None,
              e\<lparr>est_s := Some (next_addr st), est_n_samples := est_n_samples e + 1\<rparr>,
              st\<lparr>float_arrays := (float_arrays st)(next_addr st := new_s),
                 next_addr := Suc (next_addr st)\<rparr>)"
proof -
  obtain p where p: "welford_s_term xi new_m old_m = Inr p" "shape p = sh"
    using welford_s_term_ok[OF assms(3,4,5)] by blast
  have "broadcast_shapes (shape (float_arrays st a_s)) (shape p) = Some sh"
    using assms(2) p(2) by (simp add: broadcast_shapes_same)
  then obtain new_s where "broadcast_op fadd (float_arrays st a_s) p = Inr new_s" "shape new_s = sh"
    using broadcast_op_shape by blast
  then show ?thesis
    using p(1) assms(1) by (intro exI[of _ new_s]) (simp add: update_s_def new_float_def)
qed

lemma update_m_ok:
  assumes "est_m e = Some a_m" and "est_s e = Some a_s" and "a_s < next_addr st"
    and "shape (float_arrays st a_m) = sh" and "shape (float_arrays st a_s) = sh"
    and "broadcast_shapes sh (shape xi) = Some sh"
  shows "\<exists>new_m new_s. shape new_m = sh \<and> shape new_s = sh \<and>
           update_m e st xi =
             (None,
              e\<lparr>est_m := Some (next_addr st), est_s := Some (Suc (next_addr st)),
                est_n_samples := est_n_samples e + 1\<rparr>,
              st\<lparr>float_arrays := (float_arrays st)(next_addr st := new_m, Suc (next_addr st) := new_s),
                 next_addr := Suc (Suc (next_addr st))\<rparr>)"
proof -
  let ?old = "float_arrays st a_m"
  obtain new_m where m: "welford_m ?old xi (est_n_samples e) = Inr new_m" "shape new_m = sh"
    using welford_m_ok[of ?old xi "est_n_samples e"] assms(4,6) by auto
  let ?e1 = "e\<lparr>est_m := Some (next_addr st)\<rparr>"
  let ?st1 = "st\<lparr>float_arrays := (float_arrays st)(next_addr st := new_m), next_addr := Suc (next_addr st)\<rparr>"
  have "est_s ?e1 = Some a_s" using assms(2) by simp
  moreover have "shape (float_arrays ?st1 a_s) = sh" using assms(3,5) by simp
  ultimately obtain new_s where s: "shape new_s = sh"
    "update_s ?e1 ?st1 xi new_m ?old =
       (None, ?e1\<lparr>est_s := Some (next_addr ?st1), est_n_samples := est_n_samples ?e1 + 1\<rparr>,
        ?st1\<lparr>float_arrays := (float_arrays ?st1)(next_addr ?st1 := new_s),
             next_addr := Suc (next_addr ?st1)\<rparr>)"
    using update_s_ok[of ?e1 a_s ?st1 sh xi new_m ?old] assms(4,6) m(2) by blast
  have "update_m e st xi = update_s ?e1 ?st1 xi new_m ?old"
    using assms(1) m(1) by (simp add: update_m_def new_float_def)
  then show ?thesis
    using s m(2) by (intro exI[of _ new_m] exI[of _ new_s]) simp
qed

lemma fit_sample_fail:
  assumes "est_neuron_nonzero e = Some a_n"
    and "broadcast_shapes (shape (long_arrays st a_n)) (shape xi) \<noteq> Some (shape (long_arrays st a_n))"
  shows "fit_sample e st xi = (Some ValueError, e, st)"
  using assms by (simp add: fit_sample_def inplace_op_def map_array_def)

lemma fit_sample_ok:
  assumes "est_inv e st" and "est_neuron_nonzero e = Some a_n"
    and "broadcast_shapes (shape (long_arrays st a_n)) (shape xi) = Some (shape (long_arrays st a_n))"
  shows "\<exists>e' st'. fit_sample e st xi = (None, e', st') \<and> est_inv e' st'
           \<and> est_n_samples e' = est_n_samples e + 1 \<and> est_neuron_nonzero e' = Some a_n
           \<and> shape (long_arrays st' a_n) = shape (long_arrays st a_n)"
proof -
  let ?sh = "shape (long_arrays st a_n)"
  obtain a_m a_s where refs: "est_m e = Some a_m" "est_s e = Some a_s"
    and lt: "a_m < next_addr st" "a_s < next_addr st"
    and shm: "shape (float_arrays st a_m) = ?sh" and shs: "shape (float_arrays st a_s) = ?sh"
    and rng: "list_all (\<lambda>c. - (2 ^ 63) \<le> c \<and> c \<le> est_n_samples e) (data (long_arrays st a_n))"
    using assms(1,2) by (auto simp: est_inv_def split: option.splits)
  let ?nz = "\<lparr>shape = ?sh, data = map2 add_bool (data (long_arrays st a_n))
                (broadcast_to (map_array f_ne_zero xi) ?sh)\<rparr>"
  let ?st1 = "st\<lparr>long_arrays := (long_arrays st)(a_n := ?nz)\<rparr>"
  have step1: "fit_sample e st xi = update_m e ?st1 xi"
    using assms(2,3) by (simp add: fit_sample_def inplace_op_def map_array_def)
  obtain new_m new_s where new: "shape new_m = ?sh" "shape new_s = ?sh"
    and um: "update_m e ?st1 xi =
             (None,
              e\<lparr>est_m := Some (next_addr ?st1), est_s := Some (Suc (next_addr ?st1)),
                est_n_samples := est_n_samples e + 1\<rparr>,
              ?st1\<lparr>float_arrays := (float_arrays ?st1)(next_addr ?st1 := new_m, Suc (next_addr ?st1) := new_s),
                 next_addr := Suc (Suc (next_addr ?st1))\<rparr>)"
    using update_m_ok[of e a_m a_s ?st1 ?sh xi] refs lt shm shs assms(3) by auto
  have rng': "list_all (\<lambda>c. - (2 ^ 63) \<le> c \<and> c \<le> est_n_samples e + 1) (data ?nz)"
    using map2_add_bool_range[OF rng] by simp
  show ?thesis
    unfolding step1 um
    using assms(2) new rng' by (simp add: est_inv_def)
qed

lemma rows_shape:
  assumes "shape x = b # T"
  shows "\<exists>xs. rows x = Inr xs \<and> length xs = b \<and> (\<forall>xi \<in> set xs. shape xi = T)"
  using assms by (auto simp: rows_def)

lemma fit_loop_ok:
  assumes "est_inv e st" and "est_neuron_nonzero e = Some a_n"
    and "\<forall>xi \<in> set xs. broadcast_shapes (shape (long_arrays st a_n)) (shape xi) = Some (shape (long_arrays st a_n))"
  shows "\<exists>e' st'. fit_loop e st xs = (None, e', st') \<and> est_inv e' st'
           \<and> est_n_samples e' = est_n_samples e + int (length xs) \<and> est_neuron_nonzero e' = Some a_n
           \<and> shape (long_arrays st' a_n) = shape (long_arrays st a_n)"
  using assms
proof (induction xs arbitrary: e st)
  case Nil
  then show ?case by simp
next
  case (Cons xi xs)
  obtain e1 st1 where s1: "fit_sample e st xi = (None, e1, st1)" "est_inv e1 st1"
    "est_n_samples e1 = est_n_samples e + 1" "est_neuron_nonzero e1 = Some a_n"
    "shape (long_arrays st1 a_n) = shape (long_arrays st a_n)"
    using fit_sample_ok[OF Cons.prems(1,2), of xi] Cons.prems(3) by auto
  have "\<forall>xi \<in> set xs. broadcast_shapes (shape (long_arrays st1 a_n)) (shape xi) = Some (shape (long_arrays st1 a_n))"
    using Cons.prems(3) s1(5) by simp
  from Cons.IH[OF s1(2) s1(4) this] s1 show ?case by auto
qed

lemma fit_loop_fail:
  assumes "est_neuron_nonzero e = Some a_n"
    and "broadcast_shapes (shape (long_arrays st a_n)) (shape xi) \<noteq> Some (shape (long_arrays st a_n))"
  shows "fit_loop e st (xi # xs) = (Some ValueError, e, st)"
  using fit_sample_fail[OF assms] by simp

lemma fit_loop_inv:
  assumes "est_inv e st" and "est_neuron_nonzero e = Some a_n" and "fit_loop e st xs = (r, e', st')"
  shows "est_inv e' st'"
  using assms
proof (induction xs arbitrary: e st)
  case Nil
  then show ?case by simp
next
  case (Cons xi xs)
  show ?case
  proof (cases "broadcast_shapes (shape (long_arrays st a_n)) (shape xi) = Some (shape (long_arrays st a_n))")
    case True
    then obtain e1 st1 where s1: "fit_sample e st xi = (None, e1, st1)" "est_inv e1 st1"
      "est_neuron_nonzero e1 = Some a_n"
      using fit_sample_ok[OF Cons.prems(1,2), of xi] by auto
    then have "fit_loop e1 st1 xs = (r, e', st')" using Cons.prems(3) by simp
    from Cons.IH[OF s1(2) s1(3) this] show ?thesis .
  next
    case False
    then have "fit_loop e st (xi # xs) = (Some ValueError, e, st)"
      using fit_loop_fail[OF Cons.prems(2)] by simp
    then show ?thesis using Cons.prems(1,3) by simp
  qed
qed

lemma list_all_replicate_zero:
  "0 \<le> n \<Longrightarrow> list_all (\<lambda>c. - (2 ^ 63) \<le> c \<and> c \<le> n) (replicate k (0::int))"
  by (simp add: list_all_iff)

lemma fit_init_inv:
  assumes "est_inv e st" and "fit_init e st x = (e0, st0)"
  shows "est_inv e0 st0 \<and> (\<exists>a. est_neuron_nonzero e0 = Some a)"
proof (cases "est_n_samples e = 0")
  case True
  then show ?thesis
    using assms(2) list_all_replicate_zero[of 0]
    by (auto simp: fit_init_def new_float_def new_long_def Let_def est_inv_def zeros_def zeros_long_def full_def)
next
  case False
  then have "e0 = e" "st0 = st" using assms(2) by (simp_all add: fit_init_def)
  moreover have "\<exists>a. est_neuron_nonzero e = Some a"
    using assms(1) False by (auto simp: est_inv_def split: option.splits)
  ultimately show ?thesis using assms(1) by simp
qed

lemma fit_inv:
  assumes "est_inv e st" and "fit e st x = (r, e', st')"
  shows "est_inv e' st'"
proof -
  obtain e0 st0 where i: "fit_init e st x = (e0, st0)" by (cases "fit_init e st x")
  then obtain a where inv0: "est_inv e0 st0" and a: "est_neuron_nonzero e0 = Some a"
    using fit_init_inv[OF assms(1)] by blast
  show ?thesis
  proof (cases "rows x")
    case (Inl err)
    then show ?thesis using assms(2) i inv0 by (simp add: fit_def)
  next
    case (Inr xs)
    obtain r1 e1 st1 where l: "fit_loop e0 st0 xs = (r1, e1, st1)" by (cases "fit_loop e0 st0 xs")
    then have "est_inv e1 st1" using fit_loop_inv[OF inv0 a] by blast
    moreover have "e' = e1 \<and> st' = st1"
      using assms(2) i Inr l by (cases r1) (simp_all add: fit_def)
    ultimately show ?thesis by simp
  qed
qed

lemma est_inv_init: "est_inv WelfordEstimator_init st"
  by (simp add: est_inv_def WelfordEstimator_init_def)

lemma reachable_inv: "reachable e st \<Longrightarrow> est_inv e st"
  by (induction rule: reachable.induct) (auto simp: est_inv_init intro: fit_inv)

lemma inv_counts_bounded: "est_inv e st \<Longrightarrow> counts_bounded e st"
  by (auto simp: est_inv_def counts_bounded_def n_samples_def list_all_iff split: option.splits)

lemma replicate_two: "replicate 2 v = [v, v]"
  by (simp add: numeral_2_eq_2)

lemma fit_batch_210:
  "fit WelfordEstimator_init empty_store batch_210 = (Inr batch_210, est_210, store_210)"
  by (simp add: est_210_def store_210_def batch_210_def fit_defs upt_rec)

lemma est_210_eval:
  "est_210 = \<lparr>est_m = Some 7, est_s = Some 8, est_n_samples = 3, est_neuron_nonzero = Some 2\<rparr>"
  by (simp add: est_210_def batch_210_def fit_defs upt_rec empty_store_def eval_nat_numeral)

lemma store_210_eval:
  "long_arrays store_210 2 = \<lparr>shape = [2], data = [2, 0]\<rparr>"
  "float_arrays store_210 7 = \<lparr>shape = [2], data = [Fin (2 / 3), Fin 0]\<rparr>"
  "float_arrays store_210 8 = \<lparr>shape = [2], data = [Fin (2 / 3), Fin 0]\<rparr>"
  "next_addr store_210 = 9"
  by (simp_all add: store_210_def batch_210_def fit_defs upt_rec empty_store_def eval_nat_numeral)

lemma reachable_210: "reachable est_210 store_210"
  using reachable_fit[OF reachable_init fit_batch_210] .

text \<open>
  C7.  In every state reached by calls of \<^verbatim>\<open>fit\<close> on a new estimator, every nonzero
  counter is at most the sample count, and this still holds after any further call of
  \<^verbatim>\<open>fit\<close>, whether it returns or raises.
\<close>

theorem nonzero_le_samples:
  assumes "reachable e st"
  shows "counts_bounded e st \<and> (\<forall>x. counts_bounded (fst (snd (fit e st x))) (snd (snd (fit e st x))))"
proof -
  have inv: "est_inv e st" using assms by (rule reachable_inv)
  have "\<And>x. counts_bounded (fst (snd (fit e st x))) (snd (snd (fit e st x)))"
  proof -
    fix x
    have "est_inv (fst (snd (fit e st x))) (snd (snd (fit e st x)))"
      using fit_inv[OF inv, of x "fst (fit e st x)"] by simp
    then show "counts_bounded (fst (snd (fit e st x))) (snd (snd (fit e st x)))"
      by (rule inv_counts_bounded)
  qed
  then show ?thesis using inv_counts_bounded[OF inv] by simp
qed

theorem nonzero_le_samples_witness:
  "reachable est_210 store_210
   \<and> n_samples est_210 = 3
   \<and> map_option (\<lambda>a. data (long_arrays store_210 a)) (est_neuron_nonzero est_210) = Some [2, 0]
   \<and> counts_bounded est_210 store_210
   \<and> counts_bounded (fst (snd (fit est_210 store_210 batch_210))) (snd (snd (fit est_210 store_210 batch_210)))"
  using nonzero_le_samples[OF reachable_210] reachable_210
  by (simp add: est_210_eval store_210_eval n_samples_def)

text \<open>
  C3 (as amended).  For every estimator that has seen at least one sample, a call of
  \<^verbatim>\<open>fit\<close> with a non-empty batch whose per-sample shape cannot be broadcast to the
  feature shape raises \<^verbatim>\<open>ValueError\<close> at the first sample and leaves the estimator and
  the store as they were; with a per-sample shape that can be broadcast to the feature
  shape, equal to it or not, the call returns the batch and counts all its samples.
\<close>

theorem fit_shape_mismatch:
  assumes "reachable e st" and "est_neuron_nonzero e = Some a" and "1 \<le> n_samples e"
    and "shape x = b # T" and "0 < b"
  shows "(broadcast_shapes (shape (long_arrays st a)) T \<noteq> Some (shape (long_arrays st a)) \<longrightarrow>
            fit e st x = (Inl ValueError, e, st))
       \<and> (broadcast_shapes (shape (long_arrays st a)) T = Some (shape (long_arrays st a)) \<longrightarrow>
            (\<exists>e' st'. fit e st x = (Inr x, e', st') \<and> n_samples e' = n_samples e + int b))"
proof -
  have inv: "est_inv e st" using assms(1) by (rule reachable_inv)
  have init: "fit_init e st x = (e, st)" using assms(3) by (simp add: fit_init_def n_samples_def)
  obtain xs where xs: "rows x = Inr xs" "length xs = b" "\<forall>xi \<in> set xs. shape xi = T"
    using rows_shape[OF assms(4)] by blast
  show ?thesis
  proof (intro conjI impI)
    assume ne: "broadcast_shapes (shape (long_arrays st a)) T \<noteq> Some (shape (long_arrays st a))"
    obtain xi rest where c: "xs = xi # rest" using xs(2) assms(5) by (cases xs) auto
    then have "shape xi = T" using xs(3) by simp
    then have "fit_loop e st xs = (Some ValueError, e, st)"
      using fit_loop_fail[OF assms(2), of st xi rest] ne c by simp
    then show "fit e st x = (Inl ValueError, e, st)"
      using init xs(1) by (simp add: fit_def)
  next
    assume eq: "broadcast_shapes (shape (long_arrays st a)) T = Some (shape (long_arrays st a))"
    then have "\<forall>xi \<in> set xs. broadcast_shapes (shape (long_arrays st a)) (shape xi) = Some (shape (long_arrays st a))"
      using xs(3) by simp
    then obtain e' st' where "fit_loop e st xs = (None, e', st')" "est_n_samples e' = est_n_samples e + int (length xs)"
      using fit_loop_ok[OF inv assms(2)] by blast
    then show "\<exists>e' st'. fit e st x = (Inr x, e', st') \<and> n_samples e' = n_samples e + int b"
      using init xs(1,2) by (simp add: fit_def n_samples_def)
  qed
qed

theorem fit_shape_mismatch_witness:
  "reachable est_210 store_210 \<and> est_neuron_nonzero est_210 = Some 2 \<and> 1 \<le> n_samples est_210
   \<and> fit est_210 store_210 \<lparr>shape = [1, 3], data = [Fin 1, Fin 2, Fin 3]\<rparr>
       = (Inl ValueError, est_210, store_210)
   \<and> (\<exists>e' st'. fit est_210 store_210 \<lparr>shape = [2, 1], data = [Fin 5, Fin 6]\<rparr>
                  = (Inr \<lparr>shape = [2, 1], data = [Fin 5, Fin 6]\<rparr>, e', st')
                \<and> n_samples e' = 5)"
  using fit_shape_mismatch
      [where e = est_210 and st = store_210 and a = 2 and b = 1 and T = "[3]"
         and x = "\<lparr>shape = [1, 3], data = [Fin 1, Fin 2, Fin 3]\<rparr>"]
    fit_shape_mismatch
      [where e = est_210 and st = store_210 and a = 2 and b = 2 and T = "[1]"
         and x = "\<lparr>shape = [2, 1], data = [Fin 5, Fin 6]\<rparr>"]
    reachable_210
  by (simp add: est_210_eval store_210_eval n_samples_def broadcast_shapes_def)

text \<open>
  C3 as stated fails: after three samples of shape \<open>(2,)\<close>, a batch of one sample of
  shape \<open>(1,)\<close> is accepted; the sample is broadcast to \<open>[5, 5]\<close> and counted.
\<close>

theorem fit_shape_mismatch_counterexample:
  "n_samples est_210 = 3
   \<and> map_option (\<lambda>a. shape (float_arrays store_210 a)) (mean est_210) = Some [2]
   \<and> shape \<lparr>shape = [1, 1], data = [Fin 5]\<rparr> = [1, 1]
   \<and> fst (fit est_210 store_210 \<lparr>shape = [1, 1], data = [Fin 5]\<rparr>) = Inr \<lparr>shape = [1, 1], data = [Fin 5]\<rparr>
   \<and> n_samples (fst (snd (fit est_210 store_210 \<lparr>shape = [1, 1], data = [Fin 5]\<rparr>))) = 4
   \<and> map_option (float_arrays (snd (snd (fit est_210 store_210 \<lparr>shape = [1, 1], data = [Fin 5]\<rparr>))))
        (mean (fst (snd (fit est_210 store_210 \<lparr>shape = [1, 1], data = [Fin 5]\<rparr>))))
       = Some \<lparr>shape = [2], data = [Fin (7 / 4), Fin (5 / 4)]\<rparr>"
  by (simp add: est_210_eval store_210_eval n_samples_def mean_def fit_defs upt_rec replicate_two)

subsection \<open>Scalar-shaped samples\<close>

lemma fit_sample_scalar:
  assumes "scalar_state e st t"
  shows "\<exists>e' st'. fit_sample e st (scalar x) = (None, e', st') \<and> scalar_state e' st' (welford_step t x)"
proof -
  obtain mv sv n where t: "t = (mv, sv, n)" by (cases t)
  obtain a_m a_s a_n where r: "est_m e = Some a_m" "est_s e = Some a_s" "est_neuron_nonzero e = Some a_n"
    "a_s < next_addr st" "float_arrays st a_m = scalar mv" "float_arrays st a_s = scalar sv"
    "shape (long_arrays st a_n) = []" and n: "est_n_samples e = n" "0 \<le> n"
    using assms t by (auto simp: scalar_state_def)
  have nz: "real_of_int n + 1 \<noteq> 0" using n(2) by linarith
  show ?thesis
    using r n nz unfolding t
    by (simp add: fit_sample_def inplace_op_def update_m_def update_s_def welford_m_def
        welford_s_term_def broadcast_op_def broadcast_shapes_def broadcast_to_def new_float_def
        map_array_def scalar_def scalar_state_def fsub_def Let_def)
qed

lemma fit_loop_scalar:
  assumes "scalar_state e st t"
  shows "\<exists>e' st'. fit_loop e st (map scalar xs) = (None, e', st') \<and> scalar_state e' st' (foldl welford_step t xs)"
  using assms
proof (induction xs arbitrary: e st t)
  case Nil
  then show ?case by simp
next
  case (Cons x xs)
  obtain e1 st1 where "fit_sample e st (scalar x) = (None, e1, st1)" "scalar_state e1 st1 (welford_step t x)"
    using fit_sample_scalar[OF Cons.prems] by blast
  then show ?case using Cons.IH[of e1 st1 "welford_step t x"] by simp
qed

lemma rows_batch1: "rows (batch1 xs) = Inr (map scalar xs)"
proof -
  have "map (\<lambda>i. \<lparr>shape = [], data = block 1 i (map Fin xs)\<rparr>) [0..<length xs] = map scalar xs"
    by (rule nth_equalityI) (simp_all add: block_def scalar_def take_Suc_conv_app_nth drop_map take_map hd_drop_conv_nth take_Suc)
  then show ?thesis by (simp add: rows_def batch1_def)
qed

lemma welford_count: "snd (snd (foldl welford_step t xs)) = snd (snd t) + int (length xs)"
proof (induction xs arbitrary: t)
  case Nil
  show ?case by simp
next
  case (Cons x xs)
  obtain mv sv n where "t = (mv, sv, n)" by (cases t)
  then show ?case using Cons[of "welford_step t x"] by (simp add: Let_def)
qed

lemma fit_init_scalar:
  assumes "est_n_samples e = 0"
  shows "\<exists>e0 st0. fit_init e st (batch1 xs) = (e0, st0) \<and> scalar_state e0 st0 (0, 0, 0)"
  using assms
  by (simp add: fit_init_def batch1_def new_float_def new_long_def zeros_def zeros_long_def full_def
      scalar_state_def scalar_def Let_def)

lemma fit_batch1:
  assumes "scalar_view e st t"
  shows "\<exists>e' st'. fit e st (batch1 xs) = (Inr (batch1 xs), e', st')
           \<and> scalar_view e' st' (foldl welford_step t xs)"
proof -
  have "\<exists>e0 st0. fit_init e st (batch1 xs) = (e0, st0) \<and> scalar_state e0 st0 t"
  proof (cases "0 < snd (snd t)")
    case True
    then have "scalar_state e st t" using assms by (auto simp: scalar_view_def)
    moreover from this True have "est_n_samples e \<noteq> 0" by (auto simp: scalar_state_def)
    ultimately show ?thesis by (simp add: fit_init_def)
  next
    case False
    then have "t = (0, 0, 0)" "est_n_samples e = 0" using assms by (auto simp: scalar_view_def)
    then show ?thesis using fit_init_scalar by simp
  qed
  then obtain e0 st0 where i: "fit_init e st (batch1 xs) = (e0, st0)" "scalar_state e0 st0 t" by blast
  obtain e' st' where l: "fit_loop e0 st0 (map scalar xs) = (None, e', st')"
    "scalar_state e' st' (foldl welford_step t xs)"
    using fit_loop_scalar[OF i(2)] by blast
  have f: "fit e st (batch1 xs) = (Inr (batch1 xs), e', st')"
    using i(1) l(1) by (simp add: fit_def rows_batch1)
  have "scalar_view e' st' (foldl welford_step t xs)"
  proof (cases xs)
    case Nil
    then have "e' = e0" "st' = st0" using l(1) by simp_all
    then show ?thesis
      using assms i Nil by (auto simp: scalar_view_def scalar_state_def)
  next
    case (Cons x ys)
    have "0 \<le> snd (snd t)" using i(2) by (auto simp: scalar_state_def)
    then have "0 < snd (snd (foldl welford_step t xs))"
      unfolding welford_count using Cons by simp
    then show ?thesis using l(2) by (simp add: scalar_view_def)
  qed
  then show ?thesis using f by blast
qed

lemma fit_all_batch1:
  assumes "scalar_view e st t"
  shows "\<exists>e' st'. fit_all e st (map batch1 bs) = (None, e', st')
           \<and> scalar_view e' st' (foldl welford_step t (concat bs))"
  using assms
proof (induction bs arbitrary: e st t)
  case Nil
  then show ?case by simp
next
  case (Cons b bs)
  obtain e1 st1 where "fit e st (batch1 b) = (Inr (batch1 b), e1, st1)"
    "scalar_view e1 st1 (foldl welford_step t b)"
    using fit_batch1[OF Cons.prems] by blast
  then show ?case using Cons.IH[of e1 st1 "foldl welford_step t b"] by simp
qed

text \<open>
  C1.  Whatever the grouping into batches (empty batches included) of the three
  scalar-shaped samples 1, 2, 3, fitting the batches in turn to a new estimator raises
  nothing and leaves the sample count 3, the mean 2, the sum of squared deviations 2 and
  the standard deviation 1.
\<close>

theorem welford_one_two_three:
  assumes "concat bs = [1, 2, 3]"
  shows "case fit_all WelfordEstimator_init st (map batch1 bs) of
           (r, e, st') \<Rightarrow>
             r = None \<and> n_samples e = 3
             \<and> map_option (float_arrays st') (mean e) = Some \<lparr>shape = [], data = [Fin 2]\<rparr>
             \<and> map_option (float_arrays st') (est_s e) = Some \<lparr>shape = [], data = [Fin 2]\<rparr>
             \<and> std e st' = Inr \<lparr>shape = [], data = [Fin 1]\<rparr>"
proof -
  have "scalar_view WelfordEstimator_init st (0, 0, 0)"
    by (simp add: scalar_view_def WelfordEstimator_init_def)
  then obtain e' st' where f: "fit_all WelfordEstimator_init st (map batch1 bs) = (None, e', st')"
    and v: "scalar_view e' st' (foldl welford_step (0, 0, 0) (concat bs))"
    using fit_all_batch1 by blast
  have "foldl welford_step (0, 0, 0) (concat bs) = (2, 2, 3)"
    using assms by (simp add: Let_def)
  then have "scalar_state e' st' (2, 2, 3)" using v by (simp add: scalar_view_def)
  then show ?thesis
    unfolding f
    by (auto simp: scalar_state_def scalar_def n_samples_def mean_def std_def map_array_def)
qed

theorem welford_one_two_three_witness:
  "concat [[1], [2, 3]] = [1, 2, 3 :: real]
   \<and> fst (fit_all WelfordEstimator_init empty_store [batch1 [1], batch1 [2, 3]]) = None
   \<and> n_samples (fst (snd (fit_all WelfordEstimator_init empty_store [batch1 [1], batch1 [2, 3]]))) = 3
   \<and> std (fst (snd (fit_all WelfordEstimator_init empty_store [batch1 [1], batch1 [2, 3]])))
         (snd (snd (fit_all WelfordEstimator_init empty_store [batch1 [1], batch1 [2, 3]])))
       = Inr \<lparr>shape = [], data = [Fin 1]\<rparr>"
  using welford_one_two_three [of "[[1], [2, 3]]" empty_store]
  by (simp add: split_beta)

subsection \<open>Snapshot and restore\<close>

lemma shape_m_next:
  assumes "shape old_m = sh" and "sample_ok sh xi"
  shows "welford_m old_m xi n = Inr (m_next old_m xi n)" and "shape (m_next old_m xi n) = sh"
proof -
  obtain v where "welford_m old_m xi n = Inr v" "shape v = shape old_m"
    using welford_m_ok[of old_m xi n] assms by (auto simp: sample_ok_def)
  then show "welford_m old_m xi n = Inr (m_next old_m xi n)" and "shape (m_next old_m xi n) = sh"
    using assms(1) by (simp_all add: m_next_def)
qed

lemma shape_s_next:
  assumes "shape old_m = sh" and "shape old_s = sh" and "sample_ok sh xi"
  shows "\<exists>p. welford_s_term xi (m_next old_m xi n) old_m = Inr p
             \<and> broadcast_op fadd old_s p = Inr (s_next old_s old_m xi n)"
    and "shape (s_next old_s old_m xi n) = sh"
proof -
  obtain p where p: "welford_s_term xi (m_next old_m xi n) old_m = Inr p" "shape p = sh"
    using welford_s_term_ok[of sh xi "m_next old_m xi n" old_m] shape_m_next(2)[OF assms(1,3)] assms
    by (auto simp: sample_ok_def)
  have "broadcast_shapes (shape old_s) (shape p) = Some sh"
    using assms(2) p(2) by (simp add: broadcast_shapes_same)
  then obtain v where v: "broadcast_op fadd old_s p = Inr v" "shape v = sh"
    using broadcast_op_shape by blast
  then have e: "s_next old_s old_m xi n = v" using p(1) by (simp add: s_next_def)
  show "\<exists>p. welford_s_term xi (m_next old_m xi n) old_m = Inr p
             \<and> broadcast_op fadd old_s p = Inr (s_next old_s old_m xi n)"
    using p(1) v(1) e by simp
  show "shape (s_next old_s old_m xi n) = sh" using v(2) e by simp
qed

lemma fit_sample_wf:
  assumes "est_m e = Some a_m" and "est_s e = Some a_s" and "est_neuron_nonzero e = Some a_n"
    and "a_s < next_addr st"
    and "shape (float_arrays st a_m) = shape (long_arrays st a_n)"
    and "shape (float_arrays st a_s) = shape (long_arrays st a_n)"
    and "sample_ok (shape (long_arrays st a_n)) xi"
  shows "fit_sample e st xi =
           (None,
            e\<lparr>est_m := Some (next_addr st), est_s := Some (Suc (next_addr st)),
              est_n_samples := est_n_samples e + 1\<rparr>,
            st\<lparr>float_arrays := (float_arrays st)
                  (next_addr st := m_next (float_arrays st a_m) xi (est_n_samples e),
                   Suc (next_addr st) :=
                     s_next (float_arrays st a_s) (float_arrays st a_m) xi (est_n_samples e)),
               long_arrays := (long_arrays st)(a_n := nz_next (long_arrays st a_n) xi),
               next_addr := Suc (Suc (next_addr st))\<rparr>)"
proof -
  let ?sh = "shape (long_arrays st a_n)"
  let ?om = "float_arrays st a_m" and ?os = "float_arrays st a_s"
  let ?n = "est_n_samples e"
  have m: "welford_m ?om xi ?n = Inr (m_next ?om xi ?n)"
    using shape_m_next(1)[OF assms(5,7)] .
  obtain p where p: "welford_s_term xi (m_next ?om xi ?n) ?om = Inr p"
    "broadcast_op fadd ?os p = Inr (s_next ?os ?om xi ?n)"
    using shape_s_next(1)[OF assms(5,6,7)] by blast
  show ?thesis
    using assms(1,2,3,4,7) m p
    by (simp add: fit_sample_def inplace_op_def update_m_def update_s_def new_float_def
        nz_next_def map_array_def sample_ok_def Let_def)
qed

lemma fit_sample_not_ok:
  assumes "est_neuron_nonzero e = Some a_n" and "\<not> sample_ok (shape (long_arrays st a_n)) xi"
  shows "fit_sample e st xi = (Some ValueError, e, st)"
  using assms by (simp add: fit_sample_def inplace_op_def map_array_def sample_ok_def)

lemma unchanged_refl: "unchanged B W st st"
  by (simp add: unchanged_def)

lemma unchanged_trans: "unchanged B W st st1 \<Longrightarrow> unchanged B W st1 st2 \<Longrightarrow> unchanged B W st st2"
  by (simp add: unchanged_def)

lemma est_wf_present:
  assumes "est_wf e st" and "est_neuron_nonzero e = Some a_n"
  obtains a_m a_s where "est_m e = Some a_m" "est_s e = Some a_s"
    "a_m < next_addr st" "a_s < next_addr st" "a_n < next_addr st"
    "shape (float_arrays st a_m) = shape (long_arrays st a_n)"
    "shape (float_arrays st a_s) = shape (long_arrays st a_n)"
  using assms by (auto simp: est_wf_def split: option.splits)

lemma post_est_simps:
  "est_m (post_est e st) = Some (next_addr st)"
  "est_s (post_est e st) = Some (Suc (next_addr st))"
  "est_n_samples (post_est e st) = est_n_samples e + 1"
  "est_neuron_nonzero (post_est e st) = est_neuron_nonzero e"
  by (simp_all add: post_est_def)

lemma post_store_simps:
  "float_arrays (post_store st new_m new_s a_n nz) (next_addr st) = new_m"
  "float_arrays (post_store st new_m new_s a_n nz) (Suc (next_addr st)) = new_s"
  "a < next_addr st \<Longrightarrow> float_arrays (post_store st new_m new_s a_n nz) a = float_arrays st a"
  "long_arrays (post_store st new_m new_s a_n nz) a_n = nz"
  "a \<noteq> a_n \<Longrightarrow> long_arrays (post_store st new_m new_s a_n nz) a = long_arrays st a"
  "next_addr (post_store st new_m new_s a_n nz) = Suc (Suc (next_addr st))"
  by (simp_all add: post_store_def)

lemma fit_sample_post:
  assumes "est_m e = Some a_m" and "est_s e = Some a_s" and "est_neuron_nonzero e = Some a_n"
    and "a_s < next_addr st"
    and "shape (float_arrays st a_m) = shape (long_arrays st a_n)"
    and "shape (float_arrays st a_s) = shape (long_arrays st a_n)"
    and "sample_ok (shape (long_arrays st a_n)) xi"
  shows "fit_sample e st xi =
           (None, post_est e st,
            post_store st (m_next (float_arrays st a_m) xi (est_n_samples e))
              (s_next (float_arrays st a_s) (float_arrays st a_m) xi (est_n_samples e))
              a_n (nz_next (long_arrays st a_n) xi))"
  unfolding fit_sample_wf[OF assms] by (simp add: post_est_def post_store_def)

lemma est_wf_post:
  assumes "est_neuron_nonzero e = Some a_n" and "a_n < next_addr st"
    and "shape new_m = shape nz" and "shape new_s = shape nz"
  shows "est_wf (post_est e st) (post_store st new_m new_s a_n nz)"
  using assms by (simp add: est_wf_def post_est_simps post_store_simps)

lemma shape_nz_next: "shape (nz_next nz xi) = shape nz"
  by (simp add: nz_next_def)

lemma sim_sample:
  assumes "est_wf e st" and "est_wf e' st'" and "same_floats e st e' st'"
    and "est_neuron_nonzero e = Some a_n"
  shows "\<exists>r e1 st1 e1' st1'.
           fit_sample e st xi = (r, e1, st1) \<and> fit_sample e' st' xi = (r, e1', st1')
           \<and> est_wf e1 st1 \<and> est_wf e1' st1' \<and> same_floats e1 st1 e1' st1'
           \<and> est_neuron_nonzero e1 = Some a_n
           \<and> (same_counts e st e' st' \<longrightarrow> same_counts e1 st1 e1' st1')"
proof -
  obtain a_n' where n': "est_neuron_nonzero e' = Some a_n'"
    and sh: "shape (long_arrays st' a_n') = shape (long_arrays st a_n)"
    using assms(3,4) by (cases "est_neuron_nonzero e'") (auto simp: same_floats_def)
  obtain a_m a_s where r: "est_m e = Some a_m" "est_s e = Some a_s"
    "a_m < next_addr st" "a_s < next_addr st" "a_n < next_addr st"
    "shape (float_arrays st a_m) = shape (long_arrays st a_n)"
    "shape (float_arrays st a_s) = shape (long_arrays st a_n)"
    using est_wf_present[OF assms(1,4)] by blast
  obtain a_m' a_s' where r': "est_m e' = Some a_m'" "est_s e' = Some a_s'"
    "a_m' < next_addr st'" "a_s' < next_addr st'" "a_n' < next_addr st'"
    "shape (float_arrays st' a_m') = shape (long_arrays st' a_n')"
    "shape (float_arrays st' a_s') = shape (long_arrays st' a_n')"
    using est_wf_present[OF assms(2) n'] by blast
  have eq: "est_n_samples e' = est_n_samples e" "float_arrays st' a_m' = float_arrays st a_m"
    "float_arrays st' a_s' = float_arrays st a_s"
    using assms(3) r(1,2) r'(1,2) by (simp_all add: same_floats_def)
  let ?sh = "shape (long_arrays st a_n)"
  show ?thesis
  proof (cases "sample_ok ?sh xi")
    case True
    have ok': "sample_ok (shape (long_arrays st' a_n')) xi" using True sh by simp
    note f = fit_sample_post[OF r(1,2) assms(4) r(4,6,7) True]
    note f' = fit_sample_post[OF r'(1,2) n' r'(4,6,7) ok', unfolded eq]
    let ?nm = "m_next (float_arrays st a_m) xi (est_n_samples e)"
    let ?ns = "s_next (float_arrays st a_s) (float_arrays st a_m) xi (est_n_samples e)"
    have shm: "shape ?nm = ?sh"
      using shape_m_next(2)[OF r(6) True] .
    have shs: "shape ?ns = ?sh"
      using shape_s_next(2)[OF r(6,7) True] .
    have wf1: "est_wf (post_est e st) (post_store st ?nm ?ns a_n (nz_next (long_arrays st a_n) xi))"
      using est_wf_post[OF assms(4) r(5)] shm shs by (simp add: shape_nz_next)
    have wf1': "est_wf (post_est e' st') (post_store st' ?nm ?ns a_n' (nz_next (long_arrays st' a_n') xi))"
      using est_wf_post[OF n' r'(5)] shm shs sh by (simp add: shape_nz_next)
    have sf: "same_floats (post_est e st) (post_store st ?nm ?ns a_n (nz_next (long_arrays st a_n) xi))
                (post_est e' st') (post_store st' ?nm ?ns a_n' (nz_next (long_arrays st' a_n') xi))"
      using eq(1) assms(4) n' sh
      by (simp add: same_floats_def post_est_simps post_store_simps shape_nz_next)
    have sc: "same_counts e st e' st' \<longrightarrow>
              same_counts (post_est e st) (post_store st ?nm ?ns a_n (nz_next (long_arrays st a_n) xi))
                (post_est e' st') (post_store st' ?nm ?ns a_n' (nz_next (long_arrays st' a_n') xi))"
      using assms(4) n'
      by (simp add: same_counts_def post_est_simps post_store_simps)
    show ?thesis
      unfolding f f' using wf1 wf1' sf sc assms(4) by (simp add: post_est_simps)
  next
    case False
    then have no': "\<not> sample_ok (shape (long_arrays st' a_n')) xi" using sh by simp
    show ?thesis
      unfolding fit_sample_not_ok[OF assms(4) False] fit_sample_not_ok[OF n' no']
      using assms by simp
  qed
qed

lemma frame_sample:
  assumes "est_wf e st" and "est_neuron_nonzero e = Some a_n" and "B \<le> next_addr st"
    and "a_n \<in> W \<or> B \<le> a_n" and "fit_sample e st xi = (r, e1, st1)"
  shows "unchanged B W st st1 \<and> next_addr st \<le> next_addr st1 \<and> est_n_samples e \<le> est_n_samples e1"
proof -
  obtain a_m a_s where r: "est_m e = Some a_m" "est_s e = Some a_s"
    "a_m < next_addr st" "a_s < next_addr st" "a_n < next_addr st"
    "shape (float_arrays st a_m) = shape (long_arrays st a_n)"
    "shape (float_arrays st a_s) = shape (long_arrays st a_n)"
    using est_wf_present[OF assms(1,2)] by blast
  show ?thesis
  proof (cases "sample_ok (shape (long_arrays st a_n)) xi")
    case True
    have "unchanged B W st
            (post_store st (m_next (float_arrays st a_m) xi (est_n_samples e))
              (s_next (float_arrays st a_s) (float_arrays st a_m) xi (est_n_samples e))
              a_n (nz_next (long_arrays st a_n) xi))"
      unfolding unchanged_def
    proof (intro allI impI conjI)
      fix a assume "a < B"
      then have lt: "a < next_addr st" using assms(3) by simp
      show "float_arrays (post_store st (m_next (float_arrays st a_m) xi (est_n_samples e))
              (s_next (float_arrays st a_s) (float_arrays st a_m) xi (est_n_samples e))
              a_n (nz_next (long_arrays st a_n) xi)) a = float_arrays st a"
        using lt by (simp add: post_store_simps)
      show "shape (long_arrays (post_store st (m_next (float_arrays st a_m) xi (est_n_samples e))
              (s_next (float_arrays st a_s) (float_arrays st a_m) xi (est_n_samples e))
              a_n (nz_next (long_arrays st a_n) xi)) a) = shape (long_arrays st a)"
        by (cases "a = a_n") (simp_all add: post_store_simps shape_nz_next)
      assume "a \<notin> W"
      then have "a \<noteq> a_n" using assms(4) \<open>a < B\<close> by auto
      then show "long_arrays (post_store st (m_next (float_arrays st a_m) xi (est_n_samples e))
              (s_next (float_arrays st a_s) (float_arrays st a_m) xi (est_n_samples e))
              a_n (nz_next (long_arrays st a_n) xi)) a = long_arrays st a"
        by (simp add: post_store_simps)
    qed
    then show ?thesis
      using assms(5) unfolding fit_sample_post[OF r(1,2) assms(2) r(4,6,7) True]
      by (auto simp: post_store_simps post_est_simps)
  next
    case False
    show ?thesis
      using assms(5) unfolding fit_sample_not_ok[OF assms(2) False]
      by (auto simp: unchanged_refl)
  qed
qed

lemma sim_loop:
  assumes "est_wf e st" and "est_wf e' st'" and "same_floats e st e' st'"
    and "est_neuron_nonzero e = Some a_n"
  shows "\<exists>r e1 st1 e1' st1'.
           fit_loop e st xs = (r, e1, st1) \<and> fit_loop e' st' xs = (r, e1', st1')
           \<and> est_wf e1 st1 \<and> est_wf e1' st1' \<and> same_floats e1 st1 e1' st1'
           \<and> est_neuron_nonzero e1 = Some a_n
           \<and> (same_counts e st e' st' \<longrightarrow> same_counts e1 st1 e1' st1')"
  using assms
proof (induction xs arbitrary: e st e' st')
  case Nil
  then show ?case by simp
next
  case (Cons xi xs)
  obtain r e1 st1 e1' st1' where s: "fit_sample e st xi = (r, e1, st1)" "fit_sample e' st' xi = (r, e1', st1')"
    "est_wf e1 st1" "est_wf e1' st1'" "same_floats e1 st1 e1' st1'" "est_neuron_nonzero e1 = Some a_n"
    "same_counts e st e' st' \<longrightarrow> same_counts e1 st1 e1' st1'"
    using sim_sample[OF Cons.prems, of xi] by blast
  show ?case
  proof (cases r)
    case None
    from Cons.IH[OF s(3,4,5,6)] s(1,2,7) None show ?thesis by auto
  next
    case (Some err)
    then show ?thesis using s by auto
  qed
qed

lemma frame_loop:
  assumes "est_wf e st" and "est_neuron_nonzero e = Some a_n" and "B \<le> next_addr st"
    and "a_n \<in> W \<or> B \<le> a_n" and "fit_loop e st xs = (r, e1, st1)"
  shows "unchanged B W st st1 \<and> next_addr st \<le> next_addr st1 \<and> est_n_samples e \<le> est_n_samples e1"
  using assms
proof (induction xs arbitrary: e st)
  case Nil
  then show ?case by (simp add: unchanged_refl)
next
  case (Cons xi xs)
  obtain r0 e0 st0 where s: "fit_sample e st xi = (r0, e0, st0)" by (cases "fit_sample e st xi")
  have wf0: "est_wf e0 st0" and nz0: "est_neuron_nonzero e0 = Some a_n"
    using sim_sample[OF Cons.prems(1) Cons.prems(1) _ Cons.prems(2), of xi] s
    by (auto simp: same_floats_def)
  have f0: "unchanged B W st st0" "next_addr st \<le> next_addr st0" "est_n_samples e \<le> est_n_samples e0"
    using frame_sample[OF Cons.prems(1,2,3,4) s] by simp_all
  show ?case
  proof (cases r0)
    case None
    then have l: "fit_loop e0 st0 xs = (r, e1, st1)" using Cons.prems(5) s by simp
    have "B \<le> next_addr st0" using Cons.prems(3) f0(2) by simp
    from Cons.IH[OF wf0 nz0 this Cons.prems(4) l] f0 show ?thesis
      by (auto intro: unchanged_trans)
  next
    case (Some err)
    then have "e1 = e0" "st1 = st0" using Cons.prems(5) s by simp_all
    then show ?thesis using f0 by simp
  qed
qed

lemma fit_init_zero:
  "est_n_samples e = 0 \<Longrightarrow> fit_init e st x = (init_est e st, init_store st (tl (shape x)))"
  by (simp add: fit_init_def init_est_def init_store_def new_float_def new_long_def Let_def)

lemma fit_init_nonzero: "est_n_samples e \<noteq> 0 \<Longrightarrow> fit_init e st x = (e, st)"
  by (simp add: fit_init_def)

lemma init_est_simps:
  "est_m (init_est e st) = Some (next_addr st)"
  "est_s (init_est e st) = Some (Suc (next_addr st))"
  "est_n_samples (init_est e st) = est_n_samples e"
  "est_neuron_nonzero (init_est e st) = Some (Suc (Suc (next_addr st)))"
  by (simp_all add: init_est_def)

lemma init_store_simps:
  "float_arrays (init_store st sh) (next_addr st) = zeros sh"
  "float_arrays (init_store st sh) (Suc (next_addr st)) = zeros sh"
  "a < next_addr st \<Longrightarrow> float_arrays (init_store st sh) a = float_arrays st a"
  "long_arrays (init_store st sh) (Suc (Suc (next_addr st))) = zeros_long sh"
  "a < next_addr st \<Longrightarrow> long_arrays (init_store st sh) a = long_arrays st a"
  "next_addr (init_store st sh) = Suc (Suc (Suc (next_addr st)))"
  by (simp_all add: init_store_def)

lemma shape_zeros: "shape (zeros sh) = sh" "shape (zeros_long sh) = sh"
  by (simp_all add: zeros_def zeros_long_def full_def)

lemma est_wf_init: "est_wf (init_est e st) (init_store st sh)"
  by (simp add: est_wf_def init_est_simps init_store_simps shape_zeros)

lemma est_wf_nonzero:
  assumes "est_wf e st" and "est_n_samples e \<noteq> 0"
  shows "\<exists>a. est_neuron_nonzero e = Some a"
  using assms by (auto simp: est_wf_def split: option.splits)

lemma sim_init:
  assumes "est_wf e st" and "est_wf e' st'" and "same_floats e st e' st'"
  shows "\<exists>e0 st0 e0' st0'.
           fit_init e st x = (e0, st0) \<and> fit_init e' st' x = (e0', st0')
           \<and> est_wf e0 st0 \<and> est_wf e0' st0' \<and> same_floats e0 st0 e0' st0'
           \<and> (\<exists>a. est_neuron_nonzero e0 = Some a)
           \<and> (est_n_samples e = 0 \<or> same_counts e st e' st' \<longrightarrow> same_counts e0 st0 e0' st0')"
proof (cases "est_n_samples e = 0")
  case True
  then have z': "est_n_samples e' = 0" using assms(3) by (simp add: same_floats_def)
  have "same_floats (init_est e st) (init_store st (tl (shape x)))
          (init_est e' st') (init_store st' (tl (shape x)))"
    using True z' by (simp add: same_floats_def init_est_simps init_store_simps shape_zeros)
  moreover have "same_counts (init_est e st) (init_store st (tl (shape x)))
          (init_est e' st') (init_store st' (tl (shape x)))"
    by (simp add: same_counts_def init_est_simps init_store_simps)
  ultimately show ?thesis
    unfolding fit_init_zero[OF True] fit_init_zero[OF z']
    by (simp add: est_wf_init init_est_simps)
next
  case False
  then have nz': "est_n_samples e' \<noteq> 0" using assms(3) by (simp add: same_floats_def)
  show ?thesis
    unfolding fit_init_nonzero[OF False] fit_init_nonzero[OF nz']
    using assms False est_wf_nonzero[OF assms(1) False] by simp
qed

lemma sim_fit:
  assumes "est_wf e st" and "est_wf e' st'" and "same_floats e st e' st'"
  shows "\<exists>r e1 st1 e1' st1'.
           fit e st x = (r, e1, st1) \<and> fit e' st' x = (r, e1', st1')
           \<and> est_wf e1 st1 \<and> est_wf e1' st1' \<and> same_floats e1 st1 e1' st1'
           \<and> (est_n_samples e = 0 \<or> same_counts e st e' st' \<longrightarrow> same_counts e1 st1 e1' st1')"
proof -
  obtain e0 st0 e0' st0' a where i: "fit_init e st x = (e0, st0)" "fit_init e' st' x = (e0', st0')"
    "est_wf e0 st0" "est_wf e0' st0'" "same_floats e0 st0 e0' st0'" "est_neuron_nonzero e0 = Some a"
    "est_n_samples e = 0 \<or> same_counts e st e' st' \<longrightarrow> same_counts e0 st0 e0' st0'"
    using sim_init[OF assms, of x] by blast
  show ?thesis
  proof (cases "rows x")
    case (Inl err)
    then show ?thesis using i by (simp add: fit_def)
  next
    case (Inr xs)
    obtain r e1 st1 e1' st1' where l: "fit_loop e0 st0 xs = (r, e1, st1)" "fit_loop e0' st0' xs = (r, e1', st1')"
      "est_wf e1 st1" "est_wf e1' st1'" "same_floats e1 st1 e1' st1'"
      "same_counts e0 st0 e0' st0' \<longrightarrow> same_counts e1 st1 e1' st1'"
      using sim_loop[OF i(3,4,5,6), of xs] by blast
    show ?thesis
      using i(1,2,7) Inr l by (cases r) (simp_all add: fit_def)
  qed
qed

lemma frame_fit:
  assumes "est_wf e st" and "B \<le> next_addr st"
    and "est_n_samples e \<noteq> 0 \<longrightarrow> (\<forall>a. est_neuron_nonzero e = Some a \<longrightarrow> a \<in> W \<or> B \<le> a)"
    and "fit e st x = (r, e1, st1)"
  shows "unchanged B W st st1 \<and> next_addr st \<le> next_addr st1 \<and> est_n_samples e \<le> est_n_samples e1
         \<and> (\<forall>a. est_neuron_nonzero e1 = Some a \<longrightarrow> a \<in> W \<or> B \<le> a)
         \<and> (est_n_samples e \<noteq> 0 \<longrightarrow> est_neuron_nonzero e1 = est_neuron_nonzero e)"
proof -
  obtain e0 st0 where i: "fit_init e st x = (e0, st0)" by (cases "fit_init e st x")
  have i0: "est_wf e0 st0 \<and> unchanged B W st st0 \<and> next_addr st \<le> next_addr st0
            \<and> est_n_samples e0 = est_n_samples e
            \<and> (\<exists>a. est_neuron_nonzero e0 = Some a \<and> (a \<in> W \<or> B \<le> a))
            \<and> (est_n_samples e \<noteq> 0 \<longrightarrow> est_neuron_nonzero e0 = est_neuron_nonzero e)"
  proof (cases "est_n_samples e = 0")
    case True
    have "unchanged B W st (init_store st (tl (shape x)))"
      using assms(2) by (simp add: unchanged_def init_store_simps)
    then show ?thesis
      using i assms(2) True unfolding fit_init_zero[OF True]
      by (auto simp: est_wf_init init_est_simps init_store_simps)
  next
    case False
    then show ?thesis
      using i assms(1,3) est_wf_nonzero[OF assms(1) False] unfolding fit_init_nonzero[OF False]
      by (auto simp: unchanged_refl)
  qed
  then obtain a where a: "est_neuron_nonzero e0 = Some a" "a \<in> W \<or> B \<le> a" by blast
  have B0: "B \<le> next_addr st0" using assms(2) i0 by simp
  show ?thesis
  proof (cases "rows x")
    case (Inl err)
    then have "e1 = e0" "st1 = st0" using assms(4) i by (simp_all add: fit_def)
    then show ?thesis using i0 a by auto
  next
    case (Inr xs)
    obtain r' e' st' where l: "fit_loop e0 st0 xs = (r', e', st')" by (cases "fit_loop e0 st0 xs")
    have es: "e1 = e'" "st1 = st'"
      using assms(4) i Inr l by (cases r'; simp add: fit_def)+
    have wf0: "est_wf e0 st0" using i0 by simp
    have nz': "est_neuron_nonzero e' = Some a"
      using sim_loop[OF wf0 wf0 _ a(1), of xs] l by (auto simp: same_floats_def)
    have "unchanged B W st0 st' \<and> next_addr st0 \<le> next_addr st' \<and> est_n_samples e0 \<le> est_n_samples e'"
      using frame_loop[OF wf0 a(1) B0 a(2) l] .
    then show ?thesis
      using i0 a nz' es by (auto intro: unchanged_trans)
  qed
qed

lemma load_state_dict_state_dict:
  "load_state_dict WelfordEstimator_init (state_dict e) = (None, e)"
  by (simp add: load_state_dict_def state_dict_def WelfordEstimator_init_def)

lemma est_wf_unchanged:
  assumes "est_wf e st" and "unchanged B W st st1" and "next_addr st \<le> B" and "B \<le> next_addr st1"
  shows "est_wf e st1" and "same_floats e st e st1"
    and "(\<forall>a. est_neuron_nonzero e = Some a \<longrightarrow> a \<notin> W) \<longrightarrow> same_counts e st e st1"
proof -
  show "est_wf e st1"
    using assms by (auto simp: est_wf_def unchanged_def split: option.splits)
  show "same_floats e st e st1"
    using assms by (auto simp: est_wf_def unchanged_def same_floats_def split: option.splits)
  show "(\<forall>a. est_neuron_nonzero e = Some a \<longrightarrow> a \<notin> W) \<longrightarrow> same_counts e st e st1"
    using assms by (auto simp: est_wf_def unchanged_def same_counts_def split: option.splits)
qed

lemma same_floats_trans:
  "same_floats e1 st1 e2 st2 \<Longrightarrow> same_floats e2 st2 e3 st3 \<Longrightarrow> same_floats e1 st1 e3 st3"
  by (simp add: same_floats_def)

lemma same_floats_sym: "same_floats e1 st1 e2 st2 \<Longrightarrow> same_floats e2 st2 e1 st1"
  by (simp add: same_floats_def)

lemma same_floats_std:
  assumes "same_floats e1 st1 e2 st2"
  shows "std e1 st1 = std e2 st2"
  using assms by (cases "est_s e1"; cases "est_s e2") (auto simp: same_floats_def std_def)

lemma paired_sym: "paired eP eQ st fP sP fQ sQ \<Longrightarrow> paired eQ eP st fQ sQ fP sP"
  by (auto simp: paired_def shared_counts_def separate_counts_def)

lemma paired_step:
  assumes "paired eP eQ st fP sP fQ sQ"
    and "fit eP st x = (r, eP1, st1)" and "fit fP sP x = (r', fP1, sP1)"
  shows "r' = r \<and> paired eP1 eQ st1 fP1 sP1 fQ sQ \<and> next_addr st \<le> next_addr st1
         \<and> (\<forall>a < next_addr st. float_arrays st1 a = float_arrays st a)"
proof -
  have wfP: "est_wf eP st" and wfQ: "est_wf eQ st" and wfr: "est_wf fP sP" and wfrQ: "est_wf fQ sQ"
    and sfP: "same_floats eP st fP sP" and sfQ: "same_floats eQ st fQ sQ"
    and nP: "0 \<le> est_n_samples eP" and nQ: "0 \<le> est_n_samples eQ"
    and mode: "shared_counts eP eQ
               \<or> separate_counts eP eQ \<and> same_counts eP st fP sP \<and> same_counts eQ st fQ sQ"
    using assms(1) by (simp_all add: paired_def)
  define W where "W = (if est_n_samples eP = 0 then {} else set_option (est_neuron_nonzero eP))"
  have Wh: "est_n_samples eP \<noteq> 0 \<longrightarrow>
              (\<forall>a. est_neuron_nonzero eP = Some a \<longrightarrow> a \<in> W \<or> next_addr st \<le> a)"
    by (simp add: W_def)
  have sim: "r' = r" "est_wf eP1 st1" "est_wf fP1 sP1" "same_floats eP1 st1 fP1 sP1"
    "est_n_samples eP = 0 \<or> same_counts eP st fP sP \<longrightarrow> same_counts eP1 st1 fP1 sP1"
    using sim_fit[OF wfP wfr sfP, of x] assms(2,3) by auto
  have fr: "unchanged (next_addr st) W st st1" "next_addr st \<le> next_addr st1"
    "est_n_samples eP \<le> est_n_samples eP1"
    "\<forall>a. est_neuron_nonzero eP1 = Some a \<longrightarrow> a \<in> W \<or> next_addr st \<le> a"
    "est_n_samples eP \<noteq> 0 \<longrightarrow> est_neuron_nonzero eP1 = est_neuron_nonzero eP"
    using frame_fit[OF wfP le_refl Wh assms(2)] by simp_all
  have wfQ1: "est_wf eQ st1" and sfQ1: "same_floats eQ st eQ st1"
    and scQ1: "(\<forall>a. est_neuron_nonzero eQ = Some a \<longrightarrow> a \<notin> W) \<longrightarrow> same_counts eQ st eQ st1"
    using est_wf_unchanged[OF wfQ fr(1) le_refl fr(2)] by simp_all
  have sfQ': "same_floats eQ st1 fQ sQ"
    using same_floats_trans[OF same_floats_sym[OF sfQ1] sfQ] .
  have nP1: "0 \<le> est_n_samples eP1" using nP fr(3) by simp
  have ltQ: "\<forall>a. est_neuron_nonzero eQ = Some a \<longrightarrow> a < next_addr st"
    using wfQ by (auto simp: est_wf_def split: option.splits)
  have presP1: "est_n_samples eP1 \<noteq> 0 \<longrightarrow> (\<exists>a. est_neuron_nonzero eP1 = Some a)"
    using est_wf_nonzero[OF sim(2)] by blast
  have presQ: "est_n_samples eQ \<noteq> 0 \<longrightarrow> (\<exists>a. est_neuron_nonzero eQ = Some a)"
    using est_wf_nonzero[OF wfQ] by blast
  have mode1: "shared_counts eP1 eQ
               \<or> separate_counts eP1 eQ \<and> same_counts eP1 st1 fP1 sP1 \<and> same_counts eQ st1 fQ sQ"
    using mode
  proof
    assume sh: "shared_counts eP eQ"
    then have "est_n_samples eP1 \<noteq> 0" using nP fr(3) by (auto simp: shared_counts_def)
    then have "shared_counts eP1 eQ" using sh fr(5) by (auto simp: shared_counts_def)
    then show ?thesis by simp
  next
    assume sep: "separate_counts eP eQ \<and> same_counts eP st fP sP \<and> same_counts eQ st fQ sQ"
    have scP1: "same_counts eP1 st1 fP1 sP1" using sim(5) sep by simp
    have "\<forall>a. est_neuron_nonzero eQ = Some a \<longrightarrow> a \<notin> W"
      using sep by (auto simp: W_def separate_counts_def split: if_splits)
    then have "same_counts eQ st eQ st1" using scQ1 by simp
    then have scQ': "same_counts eQ st1 fQ sQ" using sep by (simp add: same_counts_def)
    have "separate_counts eP1 eQ"
    proof (cases "est_n_samples eP = 0")
      case True
      then have "W = {}" by (simp add: W_def)
      then have ge: "\<forall>a. est_neuron_nonzero eP1 = Some a \<longrightarrow> next_addr st \<le> a" using fr(4) by simp
      show ?thesis
        unfolding separate_counts_def
      proof
        assume "est_n_samples eP1 \<noteq> 0 \<or> est_n_samples eQ \<noteq> 0"
        then have "(\<exists>a. est_neuron_nonzero eP1 = Some a) \<or> (\<exists>a. est_neuron_nonzero eQ = Some a)"
          using presP1 presQ by blast
        then show "est_neuron_nonzero eP1 \<noteq> est_neuron_nonzero eQ"
          using ge ltQ by (auto simp: not_le[symmetric])
      qed
    next
      case False
      then have "est_neuron_nonzero eP1 = est_neuron_nonzero eP" using fr(5) by simp
      then show ?thesis using sep False by (auto simp: separate_counts_def)
    qed
    then show ?thesis using scP1 scQ' by simp
  qed
  have "paired eP1 eQ st1 fP1 sP1 fQ sQ"
    unfolding paired_def using sim(2,3,4) wfQ1 wfrQ sfQ' nP1 nQ mode1 by simp
  moreover have "\<forall>a < next_addr st. float_arrays st1 a = float_arrays st a"
    using fr(1) by (simp add: unchanged_def)
  ultimately show ?thesis using sim(1) fr(2) by simp
qed

lemma calls_of_simps:
  "calls_of c [] = []"
  "calls_of c ((c, x) # cs) = x # calls_of c cs"
  "c' \<noteq> c \<Longrightarrow> calls_of c ((c', x) # cs) = calls_of c cs"
  by (simp_all add: calls_of_def)

lemma paired_calls:
  assumes "paired eA eB st fA sA fB sB"
    and "fit_calls eA eB st cs = (outs, eA', eB', st')"
    and "fit_seq fA sA (calls_of Original cs) = (oA, fA', sA')"
    and "fit_seq fB sB (calls_of Restored cs) = (oB, fB', sB')"
  shows "calls_of Original outs = oA \<and> calls_of Restored outs = oB
         \<and> paired eA' eB' st' fA' sA' fB' sB' \<and> next_addr st \<le> next_addr st'
         \<and> (\<forall>a < next_addr st. float_arrays st' a = float_arrays st a)"
  using assms
proof (induction cs arbitrary: eA eB st fA sA fB sB outs oA oB)
  case Nil
  then show ?case by (simp add: calls_of_simps)
next
  case (Cons c cs)
  obtain who x where c: "c = (who, x)" by (cases c)
  show ?case
  proof (cases who)
    case Original
    obtain r eA1 st1 where f: "fit eA st x = (r, eA1, st1)" by (cases "fit eA st x")
    obtain r' fA1 sA1 where g: "fit fA sA x = (r', fA1, sA1)" by (cases "fit fA sA x")
    obtain rs where rest: "fit_calls eA1 eB st1 cs = (rs, eA', eB', st')" and outs: "outs = (Original, r) # rs"
      using Cons.prems(2) f c Original by (auto split: prod.splits)
    obtain os where ref: "fit_seq fA1 sA1 (calls_of Original cs) = (os, fA', sA')" and oA: "oA = r' # os"
      using Cons.prems(3) g c Original by (auto simp: calls_of_simps split: prod.splits)
    have refB: "fit_seq fB sB (calls_of Restored cs) = (oB, fB', sB')"
      using Cons.prems(4) c Original by (simp add: calls_of_simps)
    have st: "r' = r" "paired eA1 eB st1 fA1 sA1 fB sB" "next_addr st \<le> next_addr st1"
      "\<forall>a < next_addr st. float_arrays st1 a = float_arrays st a"
      using paired_step[OF Cons.prems(1) f g] by simp_all
    from Cons.IH[OF st(2) rest ref refB] st(1,3,4) outs oA show ?thesis
      by (auto simp: calls_of_simps)
  next
    case Restored
    obtain r eB1 st1 where f: "fit eB st x = (r, eB1, st1)" by (cases "fit eB st x")
    obtain r' fB1 sB1 where g: "fit fB sB x = (r', fB1, sB1)" by (cases "fit fB sB x")
    obtain rs where rest: "fit_calls eA eB1 st1 cs = (rs, eA', eB', st')" and outs: "outs = (Restored, r) # rs"
      using Cons.prems(2) f c Restored by (auto split: prod.splits)
    obtain os where ref: "fit_seq fB1 sB1 (calls_of Restored cs) = (os, fB', sB')" and oB: "oB = r' # os"
      using Cons.prems(4) g c Restored by (auto simp: calls_of_simps split: prod.splits)
    have refA: "fit_seq fA sA (calls_of Original cs) = (oA, fA', sA')"
      using Cons.prems(3) c Restored by (simp add: calls_of_simps)
    have st: "r' = r" "paired eB1 eA st1 fB1 sB1 fA sA" "next_addr st \<le> next_addr st1"
      "\<forall>a < next_addr st. float_arrays st1 a = float_arrays st a"
      using paired_step[OF paired_sym[OF Cons.prems(1)] f g] by simp_all
    from Cons.IH[OF paired_sym[OF st(2)] rest refA ref] st(1,3,4) outs oB show ?thesis
      by (auto simp: calls_of_simps)
  qed
qed

lemma est_wf_new: "est_wf WelfordEstimator_init st"
  by (simp add: est_wf_def WelfordEstimator_init_def)

lemma reachable_wf: "reachable e st \<Longrightarrow> est_wf e st \<and> 0 \<le> est_n_samples e"
proof (induction rule: reachable.induct)
  case (reachable_init st)
  have "est_n_samples WelfordEstimator_init = 0" by (simp add: WelfordEstimator_init_def)
  then show ?case using est_wf_new[of st] by simp
next
  case (reachable_fit e st x r e' st')
  then have wf: "est_wf e st" and n: "0 \<le> est_n_samples e" by simp_all
  have "est_wf e' st'"
    using sim_fit[OF wf wf, of x] reachable_fit.hyps(2) by (auto simp: same_floats_def)
  moreover have "est_n_samples e \<le> est_n_samples e'"
    using frame_fit[OF wf le_refl _ reachable_fit.hyps(2), of UNIV] by simp
  ultimately show ?case using n by simp
qed

text \<open>
  C2 (as amended).  For every well-formed estimator (in particular every estimator
  reached by calls of \<^verbatim>\<open>fit\<close>), restoring its state dictionary into a new estimator
  gives an estimator with the same four attributes; after identical further calls of
  \<^verbatim>\<open>fit\<close> on both, in any interleaving, the calls have had the same outcomes and the
  two estimators have the same sample count, mean, standard deviation and nonzero counts.
  The state dictionary holds the arrays of the estimator themselves, and the arrays it
  holds for the mean and for the sum of squared deviations are not changed by the calls.
\<close>

theorem snapshot_restore:
  assumes "est_wf e st" and "0 \<le> est_n_samples e"
    and "calls_of Original cs = calls_of Restored cs"
    and "fit_calls e (snd (load_state_dict WelfordEstimator_init (state_dict e))) st cs
           = (outs, eA, eB, st')"
  shows "load_state_dict WelfordEstimator_init (state_dict e) = (None, e)
       \<and> calls_of Original outs = calls_of Restored outs
       \<and> n_samples eA = n_samples eB
       \<and> map_option (float_arrays st') (mean eA) = map_option (float_arrays st') (mean eB)
       \<and> std eA st' = std eB st'
       \<and> map_option (long_arrays st') (est_neuron_nonzero eA)
           = map_option (long_arrays st') (est_neuron_nonzero eB)
       \<and> (\<forall>a. state_dict e ''m'' = Some (SFloatArr (Some a)) \<or> state_dict e ''s'' = Some (SFloatArr (Some a))
              \<longrightarrow> float_arrays st' a = float_arrays st a)"
proof -
  have run: "fit_calls e e st cs = (outs, eA, eB, st')"
    using assms(4) by (simp add: load_state_dict_state_dict)
  have p0: "paired e e st e st e st"
    using assms(1,2) by (auto simp: paired_def same_floats_def same_counts_def shared_counts_def separate_counts_def)
  obtain os f s where ref: "fit_seq e st (calls_of Original cs) = (os, f, s)"
    by (cases "fit_seq e st (calls_of Original cs)")
  then have ref': "fit_seq e st (calls_of Restored cs) = (os, f, s)" using assms(3) by simp
  have res: "calls_of Original outs = os" "calls_of Restored outs = os" "paired eA eB st' f s f s"
    "\<forall>a < next_addr st. float_arrays st' a = float_arrays st a"
    using paired_calls[OF p0 run ref ref'] by simp_all
  have sf: "same_floats eA st' eB st'"
    using res(3) same_floats_trans same_floats_sym unfolding paired_def by blast
  have nz: "map_option (long_arrays st') (est_neuron_nonzero eA)
              = map_option (long_arrays st') (est_neuron_nonzero eB)"
    using res(3) by (auto simp: paired_def shared_counts_def same_counts_def)
  have snap: "\<forall>a. state_dict e ''m'' = Some (SFloatArr (Some a)) \<or> state_dict e ''s'' = Some (SFloatArr (Some a))
              \<longrightarrow> float_arrays st' a = float_arrays st a"
  proof (intro allI impI)
    fix a
    assume "state_dict e ''m'' = Some (SFloatArr (Some a)) \<or> state_dict e ''s'' = Some (SFloatArr (Some a))"
    then have "est_m e = Some a \<or> est_s e = Some a" by (simp add: state_dict_def)
    then have "a < next_addr st"
      using assms(1) by (auto simp: est_wf_def split: option.splits)
    then show "float_arrays st' a = float_arrays st a" using res(4) by simp
  qed
  show ?thesis
    using res(1,2) sf same_floats_std[OF sf] nz snap
    by (simp add: load_state_dict_state_dict n_samples_def mean_def same_floats_def)
qed

theorem snapshot_restore_witness:
  "est_wf est_210 store_210 \<and> 0 \<le> est_n_samples est_210
   \<and> calls_of Original [(Original, batch_210), (Restored, batch_210)]
       = calls_of Restored [(Original, batch_210), (Restored, batch_210)]
   \<and> n_samples (fst (snd (fit_calls est_210
         (snd (load_state_dict WelfordEstimator_init (state_dict est_210))) store_210
         [(Original, batch_210), (Restored, batch_210)])))
     = n_samples (fst (snd (snd (fit_calls est_210
         (snd (load_state_dict WelfordEstimator_init (state_dict est_210))) store_210
         [(Original, batch_210), (Restored, batch_210)]))))
   \<and> std (fst (snd (fit_calls est_210
         (snd (load_state_dict WelfordEstimator_init (state_dict est_210))) store_210
         [(Original, batch_210), (Restored, batch_210)])))
        (snd (snd (snd (fit_calls est_210
         (snd (load_state_dict WelfordEstimator_init (state_dict est_210))) store_210
         [(Original, batch_210), (Restored, batch_210)]))))
     = std (fst (snd (snd (fit_calls est_210
         (snd (load_state_dict WelfordEstimator_init (state_dict est_210))) store_210
         [(Original, batch_210), (Restored, batch_210)]))))
        (snd (snd (snd (fit_calls est_210
         (snd (load_state_dict WelfordEstimator_init (state_dict est_210))) store_210
         [(Original, batch_210), (Restored, batch_210)]))))
   \<and> state_dict est_210 ''m'' = Some (SFloatArr (Some 7))
   \<and> float_arrays (snd (snd (snd (fit_calls est_210
         (snd (load_state_dict WelfordEstimator_init (state_dict est_210))) store_210
         [(Original, batch_210), (Restored, batch_210)])))) 7
     = float_arrays store_210 7"
proof -
  let ?cs = "[(Original, batch_210), (Restored, batch_210)]"
  let ?R = "fit_calls est_210 (snd (load_state_dict WelfordEstimator_init (state_dict est_210)))
              store_210 ?cs"
  have wf: "est_wf est_210 store_210" and n: "0 \<le> est_n_samples est_210"
    using reachable_wf[OF reachable_210] by simp_all
  have c: "calls_of Original ?cs = calls_of Restored ?cs"
    by (simp add: calls_of_def)
  have r: "?R = (fst ?R, fst (snd ?R), fst (snd (snd ?R)), snd (snd (snd ?R)))"
    by (simp only: prod.collapse)
  have m: "state_dict est_210 ''m'' = Some (SFloatArr (Some 7))"
    by (simp add: state_dict_def est_210_eval)
  show ?thesis
    using snapshot_restore[OF wf n c r] wf n c m by blast
qed

text \<open>
  C2 as stated fails: the state dictionary is not a copy.  After three samples the
  nonzero counters are \<open>[2, 0]\<close>; the state dictionary and the estimator restored from
  it hold this very array, and one further call of \<^verbatim>\<open>fit\<close> on the original alone turns
  it into \<open>[4, 0]\<close>, while the restored estimator still has the sample count 3.
\<close>

theorem snapshot_restore_counterexample:
  "state_dict est_210 ''neuron_nonzero'' = Some (SLongArr (Some 2))
   \<and> est_neuron_nonzero (snd (load_state_dict WelfordEstimator_init (state_dict est_210))) = Some 2
   \<and> n_samples (snd (load_state_dict WelfordEstimator_init (state_dict est_210))) = 3
   \<and> long_arrays store_210 2 = \<lparr>shape = [2], data = [2, 0]\<rparr>
   \<and> long_arrays (snd (snd (fit est_210 store_210 batch_210))) 2 = \<lparr>shape = [2], data = [4, 0]\<rparr>"
  unfolding load_state_dict_state_dict snd_conv
  by (simp add: state_dict_def n_samples_def est_210_eval store_210_eval
      batch_210_def fit_defs upt_rec replicate_two)

subsection \<open>The state dictionary\<close>

text \<open>
  C4 (as amended).  For every estimator, the mapping returned by \<^verbatim>\<open>state_dict\<close> has
  exactly the four keys \<^verbatim>\<open>'m'\<close>, \<^verbatim>\<open>'s'\<close>, \<^verbatim>\<open>'n_samples'\<close> and \<^verbatim>\<open>'neuron_nonzero'\<close>; their
  values are the estimator's current mean array, its current array of sums of squared
  deviations, its integer sample count and its current array of nonzero counts (the
  arrays themselves, not copies).
\<close>

theorem state_dict_keys:
  "dom (state_dict e) = {''m'', ''s'', ''n_samples'', ''neuron_nonzero''}
   \<and> state_dict e ''m'' = Some (SFloatArr (est_m e))
   \<and> state_dict e ''s'' = Some (SFloatArr (est_s e))
   \<and> state_dict e ''n_samples'' = Some (SInt (est_n_samples e))
   \<and> state_dict e ''neuron_nonzero'' = Some (SLongArr (est_neuron_nonzero e))"
  by (auto simp: state_dict_def dom_def split: if_splits)

text \<open>
  C4 as stated fails: the keys of the mapping are not \<^verbatim>\<open>'mean'\<close>, \<^verbatim>\<open>'sum_sq_dev'\<close>,
  \<^verbatim>\<open>'sample_count'\<close> and \<^verbatim>\<open>'nonzero_count'\<close>.
\<close>

theorem state_dict_keys_counterexample:
  "dom (state_dict WelfordEstimator_init) \<noteq> {''mean'', ''sum_sq_dev'', ''sample_count'', ''nonzero_count''}"
proof
  assume "dom (state_dict WelfordEstimator_init) = {''mean'', ''sum_sq_dev'', ''sample_count'', ''nonzero_count''}"
  then have "''mean'' \<in> dom (state_dict WelfordEstimator_init)" by simp
  then show False by (simp add: state_dict_def dom_def)
qed

subsection \<open>Rounding\<close>

text \<open>
  Between two consecutive powers of two the rounding is computed from the exponent, and
  the rounded number differs from the exact one by at most the fraction \<open>1 / 2 ^ p\<close> of its absolute value.
\<close>

lemma pow2_powr: "pow2 k = 2 powr (of_int k)"
proof (cases "0 \<le> k")
  case True
  then show ?thesis by (simp add: pow2_def powr_realpow[symmetric])
next
  case False
  then have "(2::real) powr (of_int k) = 1 / 2 powr (of_int (- k))"
    by (simp add: powr_minus_divide)
  also have "\<dots> = 1 / 2 ^ nat (- k)"
    using False by (simp add: powr_realpow[symmetric])
  finally show ?thesis using False by (simp add: pow2_def)
qed

lemma pow2_pos: "0 < pow2 k"
  by (simp add: pow2_powr)

lemma floor_log2:
  assumes "pow2 e \<le> \<bar>x\<bar>" and "\<bar>x\<bar> < pow2 (e + 1)"
  shows "\<lfloor>log 2 \<bar>x\<bar>\<rfloor> = e"
proof -
  have pos: "0 < \<bar>x\<bar>" using assms(1) pow2_pos[of e] by linarith
  have "2 powr (of_int e) \<le> \<bar>x\<bar> \<and> \<bar>x\<bar> < 2 powr (of_int e + 1)"
    using assms by (simp add: pow2_powr)
  then show ?thesis
    using floor_log_eq_powr_iff[of "\<bar>x\<bar>" 2 e] pos by simp
qed

lemma round_float_eval:
  assumes "pow2 e \<le> \<bar>x\<bar>" and "\<bar>x\<bar> < pow2 (e + 1)"
  shows "round_float p x = of_int (round_even (x / pow2 (e - int p + 1))) * pow2 (e - int p + 1)"
proof -
  have "x \<noteq> 0" using assms(1) pow2_pos[of e] by auto
  then show ?thesis
    using floor_log2[OF assms] by (simp add: round_float_def Let_def)
qed

lemma round_even_error: "\<bar>of_int (round_even y) - y\<bar> \<le> 1 / 2"
  unfolding round_even_def Let_def by (auto simp: abs_if) linarith+

lemma round_float_error: "\<bar>round_float p x - x\<bar> \<le> \<bar>x\<bar> / 2 ^ p"
proof (cases "x = 0")
  case True
  then show ?thesis by (simp add: round_float_def)
next
  case False
  define e where "e = \<lfloor>log 2 \<bar>x\<bar>\<rfloor>"
  define u where "u = pow2 (e - int p + 1)"
  have u: "0 < u" by (simp add: u_def pow2_pos)
  have r: "round_float p x = of_int (round_even (x / u)) * u"
    using False by (simp add: round_float_def Let_def e_def u_def)
  have "of_int (round_even (x / u)) * u - x = (of_int (round_even (x / u)) - x / u) * u"
    using u by (simp add: field_simps)
  then have "\<bar>of_int (round_even (x / u)) * u - x\<bar> = \<bar>of_int (round_even (x / u)) - x / u\<bar> * u"
    using u by (simp add: abs_mult)
  also have "\<dots> \<le> (1 / 2) * u"
    using round_even_error[of "x / u"] u by (intro mult_right_mono) simp_all
  finally have b: "\<bar>round_float p x - x\<bar> \<le> u / 2" using r by simp
  have "2 powr (of_int e) \<le> 2 powr (log 2 \<bar>x\<bar>)"
    unfolding e_def by (intro powr_mono) simp_all
  then have le: "pow2 e \<le> \<bar>x\<bar>" using False by (simp add: pow2_powr)
  have "u = pow2 e * 2 / 2 ^ p"
    by (simp add: u_def pow2_powr powr_diff powr_add powr_realpow[symmetric] of_int_diff)
  then have "u / 2 = pow2 e / 2 ^ p" by simp
  also have "\<dots> \<le> \<bar>x\<bar> / 2 ^ p" using le by (simp add: divide_right_mono)
  finally show ?thesis using b by linarith
qed

lemma round_float_nonzero:
  assumes "x \<noteq> 0" and "0 < p"
  shows "round_float p x \<noteq> 0"
proof
  assume z: "round_float p x = 0"
  have "(2::real) ^ 1 \<le> 2 ^ p" using assms(2) by (intro power_increasing) simp_all
  then have p2: "(2::real) \<le> 2 ^ p" by simp
  have pos: "0 < \<bar>x\<bar>" using assms(1) by simp
  have "\<bar>x\<bar> \<le> \<bar>x\<bar> / 2 ^ p" using round_float_error[of p x] z by simp
  then have "\<bar>x\<bar> * 2 ^ p \<le> \<bar>x\<bar>" by (simp add: field_simps)
  moreover have "\<bar>x\<bar> * 2 \<le> \<bar>x\<bar> * 2 ^ p" using p2 pos by simp
  ultimately show False using pos by linarith
qed

subsection \<open>The saliency map\<close>

lemma shape_nansum_axis0: "shape (nansum_axis0 a) = tl (shape a)"
  by (simp add: nansum_axis0_def sum_axis0_def map_array_def split: list.splits)

lemma shape_nansum_axis_last: "shape (nansum_axis_last a) = butlast (shape a)"
  by (simp add: nansum_axis_last_def sum_axis_last_def map_array_def split: list.splits)

lemma to_saliency_map_cases:
  assumes "data_format = ''NCHW'' \<or> data_format = ''NHWC''"
  shows "to_saliency_map resize capacity None data_format =
           Inr (map_array (\<lambda>v. fdiv v (Fin (ln 2))) (reduce_channels data_format capacity))"
    and "length (shape capacity) \<noteq> 3 \<or> length sh \<noteq> 2 \<Longrightarrow>
           to_saliency_map resize capacity (Some sh) data_format = Inl ValueError"
    and "length (shape capacity) = 3 \<Longrightarrow> h * w = 0 \<Longrightarrow>
           to_saliency_map resize capacity (Some [h, w]) data_format = Inl ZeroDivisionError"
    and "shape (reduce_channels data_format capacity) = [ho, wo] \<Longrightarrow> h * w \<noteq> 0 \<Longrightarrow>
           to_saliency_map resize capacity (Some [h, w]) data_format =
             resize (map_array (\<lambda>v. fmul v (Fin (real_of_int (int ho * int wo) / real_of_int (h * w))))
                      (map_array (\<lambda>v. fdiv v (Fin (ln 2))) (reduce_channels data_format capacity)))
                    [h, w] 1 True"
  using assms
     apply (auto simp: to_saliency_map_def Let_def reduce_channels_def)[1]
  using assms
    apply (cases "shape capacity" rule: rev_cases)
     apply (auto simp: to_saliency_map_def Let_def reduce_channels_def shape_nansum_axis0
      shape_nansum_axis_last map_array_def split: list.splits)[2]
  using assms
   apply (cases "shape capacity" rule: rev_cases)
    apply (auto simp: to_saliency_map_def Let_def reduce_channels_def shape_nansum_axis0
      shape_nansum_axis_last map_array_def split: list.splits)[2]
  using assms
  apply (auto simp: to_saliency_map_def Let_def reduce_channels_def map_array_def
      split: list.splits)
  done

lemma fsum_snoc: "fsum (xs @ [x]) = fadd (fsum xs) x"
  by (simp add: fsum_def)

lemma fadd_zero_right: "fadd v (Fin 0) = v"
  by (cases v) simp_all

lemma fsum_nan_to_zero: "fsum (map nan_to_zero vs) = skip_nan_sum vs"
proof (induction vs rule: rev_induct)
  case Nil
  show ?case by (simp add: skip_nan_sum_def)
next
  case (snoc x xs)
  show ?case
  proof (cases "x = NaN")
    case True
    with snoc show ?thesis by (simp add: fsum_snoc fadd_zero_right skip_nan_sum_def)
  next
    case False
    then have "nan_to_zero x = x" by (cases x) simp_all
    with snoc False show ?thesis by (simp add: fsum_snoc skip_nan_sum_def)
  qed
qed

lemma block_nth:
  assumes "(i + 1) * k \<le> length d"
  shows "block k i d = map (\<lambda>j. d ! (i * k + j)) [0..<k]"
proof (rule nth_equalityI)
  show "length (block k i d) = length (map (\<lambda>j. d ! (i * k + j)) [0..<k])"
    using assms by (simp add: block_def)
next
  fix j assume "j < length (block k i d)"
  then have "j < k" by (simp add: block_def)
  then show "block k i d ! j = map (\<lambda>j. d ! (i * k + j)) [0..<k] ! j"
    using assms by (simp add: block_def)
qed

lemma sum_rows:
  assumes "c * k \<le> length d"
  shows "foldl (map2 fadd) (replicate k (Fin 0)) (map (\<lambda>i. block k i d) [0..<c])
         = map (\<lambda>j. fsum (map (\<lambda>i. d ! (i * k + j)) [0..<c])) [0..<k]"
  using assms
proof (induction c)
  case 0
  show ?case by (simp add: fsum_def map_replicate_trivial[symmetric] del: map_replicate_trivial)
next
  case (Suc c)
  then have le: "(c + 1) * k \<le> length d" and le': "c * k \<le> length d" by simp_all
  have "foldl (map2 fadd) (replicate k (Fin 0)) (map (\<lambda>i. block k i d) [0..<Suc c])
        = map2 fadd (map (\<lambda>j. fsum (map (\<lambda>i. d ! (i * k + j)) [0..<c])) [0..<k]) (block k c d)"
    using Suc.IH[OF le'] by simp
  also have "\<dots> = map2 fadd (map (\<lambda>j. fsum (map (\<lambda>i. d ! (i * k + j)) [0..<c])) [0..<k])
                       (map (\<lambda>j. d ! (c * k + j)) [0..<k])"
    by (simp add: block_nth[OF le])
  also have "\<dots> = map (\<lambda>j. fsum (map (\<lambda>i. d ! (i * k + j)) [0..<Suc c])) [0..<k]"
    by (rule nth_equalityI) (simp_all add: fsum_snoc)
  finally show ?case .
qed

lemma nansum_axis0_values:
  assumes "wf_array a" and "shape a = c # rest"
  shows "nansum_axis0 a =
           \<lparr>shape = rest, data = map (\<lambda>j. skip_nan_sum (channel_first_values a j)) [0..<prod_list rest]\<rparr>"
proof -
  let ?k = "prod_list rest"
  let ?d = "map nan_to_zero (data a)"
  have len: "c * ?k \<le> length ?d"
    using assms by (simp add: wf_array_def)
  have "\<And>j. j < ?k \<Longrightarrow> fsum (map (\<lambda>i. ?d ! (i * ?k + j)) [0..<c]) = skip_nan_sum (channel_first_values a j)"
  proof -
    fix j assume j: "j < ?k"
    have "\<And>i. i < c \<Longrightarrow> i * ?k + j < length (data a)"
    proof -
      fix i assume "i < c"
      then have "Suc i * ?k \<le> c * ?k" by (intro mult_le_mono1) simp
      then show "i * ?k + j < length (data a)" using j len by simp
    qed
    then have "map (\<lambda>i. ?d ! (i * ?k + j)) [0..<c] = map nan_to_zero (channel_first_values a j)"
      using assms(2) by (simp add: channel_first_values_def)
    then show "fsum (map (\<lambda>i. ?d ! (i * ?k + j)) [0..<c]) = skip_nan_sum (channel_first_values a j)"
      by (simp add: fsum_nan_to_zero)
  qed
  then have "map (\<lambda>j. fsum (map (\<lambda>i. ?d ! (i * ?k + j)) [0..<c])) [0..<?k]
             = map (\<lambda>j. skip_nan_sum (channel_first_values a j)) [0..<?k]"
    by simp
  then show ?thesis
    using assms(2) sum_rows[OF len]
    by (simp add: nansum_axis0_def sum_axis0_def map_array_def)
qed

lemma sum_axis_last_nonscalar:
  "shape b \<noteq> [] \<Longrightarrow>
     sum_axis_last b =
       \<lparr>shape = butlast (shape b),
        data = map (\<lambda>j. fsum (block (last (shape b)) j (data b))) [0..<prod_list (butlast (shape b))]\<rparr>"
  by (cases "shape b") (simp_all add: sum_axis_last_def)

lemma nansum_axis_last_values:
  assumes "wf_array a" and "shape a = outer @ [c]"
  shows "nansum_axis_last a =
           \<lparr>shape = outer, data = map (\<lambda>j. skip_nan_sum (channel_last_values a j)) [0..<prod_list outer]\<rparr>"
proof -
  let ?d = "map nan_to_zero (data a)"
  have len: "length ?d = prod_list outer * c"
    using assms by (simp add: wf_array_def)
  have "\<And>j. j < prod_list outer \<Longrightarrow> fsum (block c j ?d) = skip_nan_sum (channel_last_values a j)"
  proof -
    fix j assume j: "j < prod_list outer"
    then have "Suc j * c \<le> prod_list outer * c" by (intro mult_le_mono1) simp
    then have le: "(j + 1) * c \<le> length ?d" using len by simp
    then have "\<And>i. i < c \<Longrightarrow> j * c + i < length (data a)" by simp
    then have "map (\<lambda>i. ?d ! (j * c + i)) [0..<c] = map nan_to_zero (channel_last_values a j)"
      using assms(2) by (simp add: channel_last_values_def)
    then show "fsum (block c j ?d) = skip_nan_sum (channel_last_values a j)"
      by (simp add: block_nth[OF le] fsum_nan_to_zero)
  qed
  then have "map (\<lambda>j. fsum (block c j ?d)) [0..<prod_list outer]
             = map (\<lambda>j. skip_nan_sum (channel_last_values a j)) [0..<prod_list outer]"
    by simp
  then show ?thesis
    using assms(2)
    by (simp add: nansum_axis_last_def sum_axis_last_nonscalar map_array_def)
qed

lemma skip_nan_sum_all_nan: "\<forall>v \<in> set vs. v = NaN \<Longrightarrow> skip_nan_sum vs = Fin 0"
proof -
  assume "\<forall>v \<in> set vs. v = NaN"
  then have "filter (\<lambda>v. v \<noteq> NaN) vs = []" by (induction vs) auto
  then show ?thesis by (simp add: skip_nan_sum_def fsum_def)
qed

lemma skip_nan_sum_replicate: "skip_nan_sum (replicate n (Fin x)) = Fin (real n * x)"
proof -
  have "fsum (replicate n (Fin x)) = Fin (real n * x)"
  proof (induction n)
    case 0
    show ?case by (simp add: fsum_def)
  next
    case (Suc n)
    have "fsum (replicate (Suc n) (Fin x)) = fsum (replicate n (Fin x) @ [Fin x])"
      by (simp add: replicate_append_same)
    also have "\<dots> = Fin (real (Suc n) * x)"
      using Suc by (simp add: fsum_snoc algebra_simps)
    finally show ?case .
  qed
  then show ?thesis by (simp add: skip_nan_sum_def)
qed

lemma wf_full: "wf_array (full sh v)"
  by (simp add: wf_array_def full_def)

lemma channel_first_values_full:
  assumes "j < H * W"
  shows "channel_first_values (full [C, H, W] v) j = replicate C v"
proof -
  have "\<And>i. i < C \<Longrightarrow> i * (H * W) + j < C * (H * W)"
  proof -
    fix i assume "i < C"
    then have "Suc i * (H * W) \<le> C * (H * W)" by (intro mult_le_mono1) simp
    then show "i * (H * W) + j < C * (H * W)" using assms by simp
  qed
  then have "map (\<lambda>i. replicate (C * (H * W)) v ! (i * (H * W) + j)) [0..<C] = map (\<lambda>i. v) [0..<C]"
    by simp
  then show ?thesis
    by (simp add: channel_first_values_def full_def map_replicate_const)
qed

lemma to_saliency_map_nchw_exact:
  "to_saliency_map resize capacity None ''NCHW'' = Inr (to_saliency_map_nchw (\<lambda>x. x) (ln 2) capacity)"
proof -
  have r: "round_with (\<lambda>x. x) v = v" for v
    by (simp add: round_with_def split: npfloat.splits)
  have "sum_axis0_rounded (\<lambda>x. x) a = sum_axis0 a" for a
    by (cases "shape a") (simp_all add: sum_axis0_rounded_def sum_axis0_def r)
  then show ?thesis
    by (simp add: to_saliency_map_def to_saliency_map_nchw_def nansum_axis0_def r)
qed

lemma fold_rows:
  assumes "c * k \<le> length d"
  shows "foldl (map2 f) (replicate k z) (map (\<lambda>i. block k i d) [0..<c])
         = map (\<lambda>j. foldl f z (map (\<lambda>i. d ! (i * k + j)) [0..<c])) [0..<k]"
  using assms
proof (induction c)
  case 0
  show ?case by (simp add: map_replicate_trivial[symmetric] del: map_replicate_trivial)
next
  case (Suc c)
  then have le: "(c + 1) * k \<le> length d" and le': "c * k \<le> length d" by simp_all
  have "foldl (map2 f) (replicate k z) (map (\<lambda>i. block k i d) [0..<Suc c])
        = map2 f (map (\<lambda>j. foldl f z (map (\<lambda>i. d ! (i * k + j)) [0..<c])) [0..<k]) (block k c d)"
    using Suc.IH[OF le'] by simp
  also have "\<dots> = map2 f (map (\<lambda>j. foldl f z (map (\<lambda>i. d ! (i * k + j)) [0..<c])) [0..<k])
                       (map (\<lambda>j. d ! (c * k + j)) [0..<k])"
    by (simp add: block_nth[OF le])
  also have "\<dots> = map (\<lambda>j. foldl f z (map (\<lambda>i. d ! (i * k + j)) [0..<Suc c])) [0..<k]"
    by (rule nth_equalityI) simp_all
  finally show ?case .
qed

lemma foldl_repeated_sum:
  "foldl (\<lambda>u v. round_with rnd (fadd u v)) (Fin 0) (replicate n (Fin x)) = Fin (repeated_sum rnd x n)"
proof (induction n)
  case 0
  show ?case by simp
next
  case (Suc n)
  have "replicate (Suc n) (Fin x) = replicate n (Fin x) @ [Fin x]"
    by (simp add: replicate_append_same)
  then show ?case using Suc by (simp add: round_with_def)
qed

lemma to_saliency_map_nchw_full:
  assumes "x \<noteq> 0"
  shows "to_saliency_map_nchw rnd x (full [C, H, W] (Fin x))
         = full [H, W] (Fin (rnd (repeated_sum rnd x C / x)))"
proof -
  let ?d = "replicate (C * (H * W)) (Fin x)"
  have len: "C * (H * W) \<le> length ?d" by simp
  have idx: "\<And>i j. i < C \<Longrightarrow> j < H * W \<Longrightarrow> i * (H * W) + j < C * (H * W)"
  proof -
    fix i j assume "i < C" "j < H * W"
    then have "Suc i * (H * W) \<le> C * (H * W)" by (intro mult_le_mono1) simp
    then show "i * (H * W) + j < C * (H * W)" using \<open>j < H * W\<close> by simp
  qed
  have "\<And>j. j < H * W \<Longrightarrow> map (\<lambda>i. ?d ! (i * (H * W) + j)) [0..<C] = replicate C (Fin x)"
  proof -
    fix j assume "j < H * W"
    then have "map (\<lambda>i. ?d ! (i * (H * W) + j)) [0..<C] = map (\<lambda>i. Fin x) [0..<C]"
      using idx by simp
    then show "map (\<lambda>i. ?d ! (i * (H * W) + j)) [0..<C] = replicate C (Fin x)"
      by (simp add: map_replicate_const)
  qed
  then have "map (\<lambda>j. foldl (\<lambda>u v. round_with rnd (fadd u v)) (Fin 0) (map (\<lambda>i. ?d ! (i * (H * W) + j)) [0..<C])) [0..<H * W]
             = map (\<lambda>j. Fin (repeated_sum rnd x C)) [0..<H * W]"
    by (simp add: foldl_repeated_sum)
  then have "foldl (map2 (\<lambda>u v. round_with rnd (fadd u v))) (replicate (H * W) (Fin 0))
               (map (\<lambda>i. block (H * W) i ?d) [0..<C])
             = replicate (H * W) (Fin (repeated_sum rnd x C))"
    using fold_rows[OF len, of "\<lambda>u v. round_with rnd (fadd u v)" "Fin 0"]
    by (simp add: map_replicate_const)
  then show ?thesis
    using assms
    by (simp add: to_saliency_map_nchw_def sum_axis0_rounded_def map_array_def full_def round_with_def)
qed

lemma repeated_sum_error:
  assumes "0 < x"
  shows "\<bar>repeated_sum (round_float p) x k - real k * x\<bar> \<le> ((1 + 1 / 2 ^ p) ^ k - 1) * (real k * x)"
proof (induction k)
  case 0
  show ?case by simp
next
  case (Suc k)
  define eps :: real where "eps = 1 / 2 ^ p"
  define s where "s = repeated_sum (round_float p) x k"
  define A where "A = (1 + eps) ^ k - 1"
  define E where "E = \<bar>s - real k * x\<bar>"
  have eps: "0 \<le> eps" by (simp add: eps_def)
  have A: "0 \<le> A" using eps by (simp add: A_def)
  have kx: "0 \<le> real k * x" using assms by simp
  have IH: "E \<le> A * (real k * x)" using Suc by (simp add: E_def s_def A_def eps_def)
  have "A * (real k * x) \<le> A * (real (Suc k) * x)"
    using A assms by (intro mult_left_mono) (simp_all add: algebra_simps)
  then have E1: "E \<le> A * (real (Suc k) * x)" using IH by linarith
  have r: "\<bar>round_float p (s + x) - (s + x)\<bar> \<le> \<bar>s + x\<bar> * eps"
    using round_float_error[of p "s + x"] by (simp add: eps_def)
  have "\<bar>s + x\<bar> \<le> E + real (Suc k) * x"
  proof -
    have "s + x = (s - real k * x) + real (Suc k) * x" by (simp add: algebra_simps)
    then have "\<bar>s + x\<bar> \<le> \<bar>s - real k * x\<bar> + \<bar>real (Suc k) * x\<bar>" by (metis abs_triangle_ineq)
    then show ?thesis using assms by (simp add: E_def abs_mult)
  qed
  then have "\<bar>s + x\<bar> * eps \<le> (E + real (Suc k) * x) * eps"
    using eps by (rule mult_right_mono)
  then have r2: "\<bar>round_float p (s + x) - (s + x)\<bar> \<le> (E + real (Suc k) * x) * eps" using r by linarith
  have "round_float p (s + x) - real (Suc k) * x = (round_float p (s + x) - (s + x)) + (s - real k * x)"
    by (simp add: algebra_simps)
  then have "\<bar>round_float p (s + x) - real (Suc k) * x\<bar> \<le> \<bar>round_float p (s + x) - (s + x)\<bar> + E"
    unfolding E_def by (metis abs_triangle_ineq)
  then have b: "\<bar>round_float p (s + x) - real (Suc k) * x\<bar> \<le> (E + real (Suc k) * x) * eps + E"
    using r2 by linarith
  have "(E + real (Suc k) * x) * eps + E = E * (1 + eps) + eps * (real (Suc k) * x)"
    by (simp add: algebra_simps)
  also have "\<dots> \<le> (A * (real (Suc k) * x)) * (1 + eps) + eps * (real (Suc k) * x)"
    using E1 eps by (intro add_right_mono mult_right_mono) simp_all
  also have "\<dots> = ((1 + eps) ^ Suc k - 1) * (real (Suc k) * x)"
    by (simp add: A_def algebra_simps)
  finally have "(E + real (Suc k) * x) * eps + E \<le> ((1 + eps) ^ Suc k - 1) * (real (Suc k) * x)" .
  then show ?case using b by (simp add: s_def eps_def)
qed

lemma repeated_quotient_error:
  assumes "0 < x"
  shows "\<bar>round_float p (repeated_sum (round_float p) x C / x) - real C\<bar>
           \<le> ((1 + 1 / 2 ^ p) ^ Suc C - 1) * real C"
proof -
  define eps :: real where "eps = 1 / 2 ^ p"
  define s where "s = repeated_sum (round_float p) x C"
  define B where "B = ((1 + eps) ^ C - 1) * real C"
  have eps: "0 \<le> eps" by (simp add: eps_def)
  have "\<bar>s - real C * x\<bar> \<le> B * x"
    using repeated_sum_error[OF assms, of p C] by (simp add: s_def B_def eps_def algebra_simps)
  moreover have "s / x - real C = (s - real C * x) / x" using assms by (simp add: field_simps)
  ultimately have q: "\<bar>s / x - real C\<bar> \<le> B"
    using assms by (simp add: abs_divide pos_divide_le_eq abs_of_pos)
  have "s / x = (s / x - real C) + real C" by simp
  then have "\<bar>s / x\<bar> \<le> \<bar>s / x - real C\<bar> + \<bar>real C\<bar>" by (metis abs_triangle_ineq)
  then have qa: "\<bar>s / x\<bar> \<le> B + real C" using q by simp
  have "\<bar>round_float p (s / x) - s / x\<bar> \<le> \<bar>s / x\<bar> * eps"
    using round_float_error[of p "s / x"] by (simp add: eps_def)
  also have "\<dots> \<le> (B + real C) * eps" using qa eps by (rule mult_right_mono)
  finally have r: "\<bar>round_float p (s / x) - s / x\<bar> \<le> (B + real C) * eps" .
  have "round_float p (s / x) - real C = (round_float p (s / x) - s / x) + (s / x - real C)" by simp
  then have "\<bar>round_float p (s / x) - real C\<bar> \<le> \<bar>round_float p (s / x) - s / x\<bar> + \<bar>s / x - real C\<bar>"
    by (metis abs_triangle_ineq)
  then have "\<bar>round_float p (s / x) - real C\<bar> \<le> (B + real C) * eps + B" using r q by linarith
  also have "(B + real C) * eps + B = ((1 + eps) ^ Suc C - 1) * real C"
    by (simp add: B_def algebra_simps)
  finally show ?thesis by (simp add: s_def eps_def)
qed

lemma to_saliency_map_nchw_values:
  assumes "wf_array a" and "shape a = c # rest"
  shows "to_saliency_map_nchw rnd l a =
           \<lparr>shape = rest,
            data = map (\<lambda>j. round_with rnd (fdiv (rounded_nansum rnd (channel_first_values a j)) (Fin l)))
                     [0..<prod_list rest]\<rparr>"
proof -
  let ?k = "prod_list rest"
  let ?d = "map nan_to_zero (data a)"
  let ?f = "\<lambda>u v. round_with rnd (fadd u v)"
  have len: "c * ?k \<le> length ?d"
    using assms by (simp add: wf_array_def)
  have "\<And>j. j < ?k \<Longrightarrow> foldl ?f (Fin 0) (map (\<lambda>i. ?d ! (i * ?k + j)) [0..<c])
                          = rounded_nansum rnd (channel_first_values a j)"
  proof -
    fix j assume j: "j < ?k"
    have "\<And>i. i < c \<Longrightarrow> i * ?k + j < length (data a)"
    proof -
      fix i assume "i < c"
      then have "Suc i * ?k \<le> c * ?k" by (intro mult_le_mono1) simp
      then show "i * ?k + j < length (data a)" using j len by simp
    qed
    then have "map (\<lambda>i. ?d ! (i * ?k + j)) [0..<c] = map nan_to_zero (channel_first_values a j)"
      using assms(2) by (simp add: channel_first_values_def)
    then show "foldl ?f (Fin 0) (map (\<lambda>i. ?d ! (i * ?k + j)) [0..<c])
               = rounded_nansum rnd (channel_first_values a j)"
      by (simp add: rounded_nansum_def)
  qed
  then have "map (\<lambda>j. foldl ?f (Fin 0) (map (\<lambda>i. ?d ! (i * ?k + j)) [0..<c])) [0..<?k]
             = map (\<lambda>j. rounded_nansum rnd (channel_first_values a j)) [0..<?k]"
    by simp
  then show ?thesis
    using assms(2) fold_rows[OF len, of ?f "Fin 0"]
    by (simp add: to_saliency_map_nchw_def sum_axis0_rounded_def map_array_def comp_def)
qed

lemma binary64_zero: "binary64 0 = 0"
  by (simp add: binary64_def round_float_def)

lemma binary64_one: "binary64 1 = 1"
  by (simp add: binary64_def round_float_eval[where e = "0"] pow2_def round_even_def Let_def)

lemma binary64_ln2: "binary64 ln2_binary64 = ln2_binary64"
  by (simp add: binary64_def ln2_binary64_def round_float_eval[where e = "-1"] pow2_def
      round_even_def Let_def)

lemma ln2_binary64_pos: "0 < ln2_binary64"
  by (simp add: ln2_binary64_def)

lemma ln2_binary64_nonzero: "ln2_binary64 \<noteq> 0"
  by (simp add: ln2_binary64_def)

lemma rounded_nansum_all_nan:
  assumes "\<forall>v \<in> set vs. v = NaN"
  shows "rounded_nansum binary64 vs = Fin 0"
  using assms
proof (induction vs rule: rev_induct)
  case Nil
  show ?case by (simp add: rounded_nansum_def)
next
  case (snoc x xs)
  then show ?case by (simp add: rounded_nansum_def round_with_def binary64_zero)
qed

lemma repeated_sum_step:
  assumes "repeated_sum rnd x k = a" and "rnd (a + x) = b" and "n = Suc k"
  shows "repeated_sum rnd x n = b"
  using assms by simp

lemma repeated_sum_ln2:
  shows "repeated_sum binary64 ln2_binary64 0 = 0"
    and "repeated_sum binary64 ln2_binary64 1 = 6243314768165359 / 9007199254740992"
    and "repeated_sum binary64 ln2_binary64 2 = 6243314768165359 / 4503599627370496"
    and "repeated_sum binary64 ln2_binary64 3 = 4682486076124019 / 2251799813685248"
    and "repeated_sum binary64 ln2_binary64 4 = 6243314768165359 / 2251799813685248"
    and "repeated_sum binary64 ln2_binary64 5 = 7804143460206699 / 2251799813685248"
    and "repeated_sum binary64 ln2_binary64 6 = 4682486076124019 / 1125899906842624"
    and "repeated_sum binary64 ln2_binary64 7 = 5462900422144689 / 1125899906842624"
    and "repeated_sum binary64 ln2_binary64 8 = 6243314768165359 / 1125899906842624"
    and "repeated_sum binary64 ln2_binary64 9 = 7023729114186029 / 1125899906842624"
    and "repeated_sum binary64 ln2_binary64 10 = 7804143460206699 / 1125899906842624"
    and "repeated_sum binary64 ln2_binary64 11 = 8584557806227369 / 1125899906842624"
    and "repeated_sum binary64 ln2_binary64 12 = 4682486076124019 / 562949953421312"
    and "repeated_sum binary64 ln2_binary64 13 = 2536346624567177 / 281474976710656"
    and "repeated_sum binary64 ln2_binary64 14 = 5462900422144689 / 562949953421312"
    and "repeated_sum binary64 ln2_binary64 15 = 365819224697189 / 35184372088832"
    and "repeated_sum binary64 ln2_binary64 16 = 6243314768165359 / 562949953421312"
    and "repeated_sum binary64 ln2_binary64 17 = 3316760970587847 / 281474976710656"
    and "repeated_sum binary64 ln2_binary64 18 = 7023729114186029 / 562949953421312"
    and "repeated_sum binary64 ln2_binary64 19 = 1853484071799091 / 140737488355328"
    and "repeated_sum binary64 ln2_binary64 20 = 7804143460206699 / 562949953421312"
    and "repeated_sum binary64 ln2_binary64 21 = 4097175316608517 / 281474976710656"
    and "repeated_sum binary64 ln2_binary64 22 = 8584557806227369 / 562949953421312"
    and "repeated_sum binary64 ln2_binary64 23 = 1121845622404713 / 70368744177664"
    and "repeated_sum binary64 ln2_binary64 24 = 4682486076124019 / 281474976710656"
    and "repeated_sum binary64 ln2_binary64 25 = 2438794831314593 / 140737488355328"
proof -
  show s0: "repeated_sum binary64 ln2_binary64 0 = 0" by simp
  show s1: "repeated_sum binary64 ln2_binary64 1 = 6243314768165359 / 9007199254740992"
    by (rule repeated_sum_step[OF s0])
      (simp_all add: binary64_def ln2_binary64_def round_float_eval[where e = "-1"] pow2_def round_even_def Let_def)
  show s2: "repeated_sum binary64 ln2_binary64 2 = 6243314768165359 / 4503599627370496"
    by (rule repeated_sum_step[OF s1])
      (simp_all add: binary64_def ln2_binary64_def round_float_eval[where e = "0"] pow2_def round_even_def Let_def)
  show s3: "repeated_sum binary64 ln2_binary64 3 = 4682486076124019 / 2251799813685248"
    by (rule repeated_sum_step[OF s2])
      (simp_all add: binary64_def ln2_binary64_def round_float_eval[where e = "1"] pow2_def round_even_def Let_def)
  show s4: "repeated_sum binary64 ln2_binary64 4 = 6243314768165359 / 2251799813685248"
    by (rule repeated_sum_step[OF s3])
      (simp_all add: binary64_def ln2_binary64_def round_float_eval[where e = "1"] pow2_def round_even_def Let_def)
  show s5: "repeated_sum binary64 ln2_binary64 5 = 7804143460206699 / 2251799813685248"
    by (rule repeated_sum_step[OF s4])
      (simp_all add: binary64_def ln2_binary64_def round_float_eval[where e = "1"] pow2_def round_even_def Let_def)
  show s6: "repeated_sum binary64 ln2_binary64 6 = 4682486076124019 / 1125899906842624"
    by (rule repeated_sum_step[OF s5])
      (simp_all add: binary64_def ln2_binary64_def round_float_eval[where e = "2"] pow2_def round_even_def Let_def)
  show s7: "repeated_sum binary64 ln2_binary64 7 = 5462900422144689 / 1125899906842624"
    by (rule repeated_sum_step[OF s6])
      (simp_all add: binary64_def ln2_binary64_def round_float_eval[where e = "2"] pow2_def round_even_def Let_def)
  show s8: "repeated_sum binary64 ln2_binary64 8 = 6243314768165359 / 1125899906842624"
    by (rule repeated_sum_step[OF s7])
      (simp_all add: binary64_def ln2_binary64_def round_float_eval[where e = "2"] pow2_def round_even_def Let_def)
  show s9: "repeated_sum binary64 ln2_binary64 9 = 7023729114186029 / 1125899906842624"
    by (rule repeated_sum_step[OF s8])
      (simp_all add: binary64_def ln2_binary64_def round_float_eval[where e = "2"] pow2_def round_even_def Let_def)
  show s10: "repeated_sum binary64 ln2_binary64 10 = 7804143460206699 / 1125899906842624"
    by (rule repeated_sum_step[OF s9])
      (simp_all add: binary64_def ln2_binary64_def round_float_eval[where e = "2"] pow2_def round_even_def Let_def)
  show s11: "repeated_sum binary64 ln2_binary64 11 = 8584557806227369 / 1125899906842624"
    by (rule repeated_sum_step[OF s10])
      (simp_all add: binary64_def ln2_binary64_def round_float_eval[where e = "2"] pow2_def round_even_def Let_def)
  show s12: "repeated_sum binary64 ln2_binary64 12 = 4682486076124019 / 562949953421312"
    by (rule repeated_sum_step[OF s11])
      (simp_all add: binary64_def ln2_binary64_def round_float_eval[where e = "3"] pow2_def round_even_def Let_def)
  show s13: "repeated_sum binary64 ln2_binary64 13 = 2536346624567177 / 281474976710656"
    by (rule repeated_sum_step[OF s12])
      (simp_all add: binary64_def ln2_binary64_def round_float_eval[where e = "3"] pow2_def round_even_def Let_def)
  show s14: "repeated_sum binary64 ln2_binary64 14 = 5462900422144689 / 562949953421312"
    by (rule repeated_sum_step[OF s13])
      (simp_all add: binary64_def ln2_binary64_def round_float_eval[where e = "3"] pow2_def round_even_def Let_def)
  show s15: "repeated_sum binary64 ln2_binary64 15 = 365819224697189 / 35184372088832"
    by (rule repeated_sum_step[OF s14])
      (simp_all add: binary64_def ln2_binary64_def round_float_eval[where e = "3"] pow2_def round_even_def Let_def)
  show s16: "repeated_sum binary64 ln2_binary64 16 = 6243314768165359 / 562949953421312"
    by (rule repeated_sum_step[OF s15])
      (simp_all add: binary64_def ln2_binary64_def round_float_eval[where e = "3"] pow2_def round_even_def Let_def)
  show s17: "repeated_sum binary64 ln2_binary64 17 = 3316760970587847 / 281474976710656"
    by (rule repeated_sum_step[OF s16])
      (simp_all add: binary64_def ln2_binary64_def round_float_eval[where e = "3"] pow2_def round_even_def Let_def)
  show s18: "repeated_sum binary64 ln2_binary64 18 = 7023729114186029 / 562949953421312"
    by (rule repeated_sum_step[OF s17])
      (simp_all add: binary64_def ln2_binary64_def round_float_eval[where e = "3"] pow2_def round_even_def Let_def)
  show s19: "repeated_sum binary64 ln2_binary64 19 = 1853484071799091 / 140737488355328"
    by (rule repeated_sum_step[OF s18])
      (simp_all add: binary64_def ln2_binary64_def round_float_eval[where e = "3"] pow2_def round_even_def Let_def)
  show s20: "repeated_sum binary64 ln2_binary64 20 = 7804143460206699 / 562949953421312"
    by (rule repeated_sum_step[OF s19])
      (simp_all add: binary64_def ln2_binary64_def round_float_eval[where e = "3"] pow2_def round_even_def Let_def)
  show s21: "repeated_sum binary64 ln2_binary64 21 = 4097175316608517 / 281474976710656"
    by (rule repeated_sum_step[OF s20])
      (simp_all add: binary64_def ln2_binary64_def round_float_eval[where e = "3"] pow2_def round_even_def Let_def)
  show s22: "repeated_sum binary64 ln2_binary64 22 = 8584557806227369 / 562949953421312"
    by (rule repeated_sum_step[OF s21])
      (simp_all add: binary64_def ln2_binary64_def round_float_eval[where e = "3"] pow2_def round_even_def Let_def)
  show s23: "repeated_sum binary64 ln2_binary64 23 = 1121845622404713 / 70368744177664"
    by (rule repeated_sum_step[OF s22])
      (simp_all add: binary64_def ln2_binary64_def round_float_eval[where e = "3"] pow2_def round_even_def Let_def)
  show s24: "repeated_sum binary64 ln2_binary64 24 = 4682486076124019 / 281474976710656"
    by (rule repeated_sum_step[OF s23])
      (simp_all add: binary64_def ln2_binary64_def round_float_eval[where e = "4"] pow2_def round_even_def Let_def)
  show s25: "repeated_sum binary64 ln2_binary64 25 = 2438794831314593 / 140737488355328"
    by (rule repeated_sum_step[OF s24])
      (simp_all add: binary64_def ln2_binary64_def round_float_eval[where e = "4"] pow2_def round_even_def Let_def)
qed

lemma quotient_ln2:
  assumes "C \<le> 24"
  shows "binary64 (repeated_sum binary64 ln2_binary64 C / ln2_binary64) = real C"
proof -
  have q0: "binary64 (repeated_sum binary64 ln2_binary64 0 / ln2_binary64) = real (0::nat)"
    by (simp add: binary64_def round_float_def)
  have q1: "binary64 (repeated_sum binary64 ln2_binary64 1 / ln2_binary64) = real (1::nat)"
    unfolding repeated_sum_ln2 by (simp add: binary64_def ln2_binary64_def round_float_eval[where e = "0"] pow2_def round_even_def Let_def)
  have q2: "binary64 (repeated_sum binary64 ln2_binary64 2 / ln2_binary64) = real (2::nat)"
    unfolding repeated_sum_ln2 by (simp add: binary64_def ln2_binary64_def round_float_eval[where e = "1"] pow2_def round_even_def Let_def)
  have q3: "binary64 (repeated_sum binary64 ln2_binary64 3 / ln2_binary64) = real (3::nat)"
    unfolding repeated_sum_ln2 by (simp add: binary64_def ln2_binary64_def round_float_eval[where e = "1"] pow2_def round_even_def Let_def)
  have q4: "binary64 (repeated_sum binary64 ln2_binary64 4 / ln2_binary64) = real (4::nat)"
    unfolding repeated_sum_ln2 by (simp add: binary64_def ln2_binary64_def round_float_eval[where e = "2"] pow2_def round_even_def Let_def)
  have q5: "binary64 (repeated_sum binary64 ln2_binary64 5 / ln2_binary64) = real (5::nat)"
    unfolding repeated_sum_ln2 by (simp add: binary64_def ln2_binary64_def round_float_eval[where e = "2"] pow2_def round_even_def Let_def)
  have q6: "binary64 (repeated_sum binary64 ln2_binary64 6 / ln2_binary64) = real (6::nat)"
    unfolding repeated_sum_ln2 by (simp add: binary64_def ln2_binary64_def round_float_eval[where e = "2"] pow2_def round_even_def Let_def)
  have q7: "binary64 (repeated_sum binary64 ln2_binary64 7 / ln2_binary64) = real (7::nat)"
    unfolding repeated_sum_ln2 by (simp add: binary64_def ln2_binary64_def round_float_eval[where e = "2"] pow2_def round_even_def Let_def)
  have q8: "binary64 (repeated_sum binary64 ln2_binary64 8 / ln2_binary64) = real (8::nat)"
    unfolding repeated_sum_ln2 by (simp add: binary64_def ln2_binary64_def round_float_eval[where e = "3"] pow2_def round_even_def Let_def)
  have q9: "binary64 (repeated_sum binary64 ln2_binary64 9 / ln2_binary64) = real (9::nat)"
    unfolding repeated_sum_ln2 by (simp add: binary64_def ln2_binary64_def round_float_eval[where e = "3"] pow2_def round_even_def Let_def)
  have q10: "binary64 (repeated_sum binary64 ln2_binary64 10 / ln2_binary64) = real (10::nat)"
    unfolding repeated_sum_ln2 by (simp add: binary64_def ln2_binary64_def round_float_eval[where e = "3"] pow2_def round_even_def Let_def)
  have q11: "binary64 (repeated_sum binary64 ln2_binary64 11 / ln2_binary64) = real (11::nat)"
    unfolding repeated_sum_ln2 by (simp add: binary64_def ln2_binary64_def round_float_eval[where e = "3"] pow2_def round_even_def Let_def)
  have q12: "binary64 (repeated_sum binary64 ln2_binary64 12 / ln2_binary64) = real (12::nat)"
    unfolding repeated_sum_ln2 by (simp add: binary64_def ln2_binary64_def round_float_eval[where e = "3"] pow2_def round_even_def Let_def)
  have q13: "binary64 (repeated_sum binary64 ln2_binary64 13 / ln2_binary64) = real (13::nat)"
    unfolding repeated_sum_ln2 by (simp add: binary64_def ln2_binary64_def round_float_eval[where e = "3"] pow2_def round_even_def Let_def)
  have q14: "binary64 (repeated_sum binary64 ln2_binary64 14 / ln2_binary64) = real (14::nat)"
    unfolding repeated_sum_ln2 by (simp add: binary64_def ln2_binary64_def round_float_eval[where e = "3"] pow2_def round_even_def Let_def)
  have q15: "binary64 (repeated_sum binary64 ln2_binary64 15 / ln2_binary64) = real (15::nat)"
    unfolding repeated_sum_ln2 by (simp add: binary64_def ln2_binary64_def round_float_eval[where e = "3"] pow2_def round_even_def Let_def)
  have q16: "binary64 (repeated_sum binary64 ln2_binary64 16 / ln2_binary64) = real (16::nat)"
    unfolding repeated_sum_ln2 by (simp add: binary64_def ln2_binary64_def round_float_eval[where e = "4"] pow2_def round_even_def Let_def)
  have q17: "binary64 (repeated_sum binary64 ln2_binary64 17 / ln2_binary64) = real (17::nat)"
    unfolding repeated_sum_ln2 by (simp add: binary64_def ln2_binary64_def round_float_eval[where e = "4"] pow2_def round_even_def Let_def)
  have q18: "binary64 (repeated_sum binary64 ln2_binary64 18 / ln2_binary64) = real (18::nat)"
    unfolding repeated_sum_ln2 by (simp add: binary64_def ln2_binary64_def round_float_eval[where e = "4"] pow2_def round_even_def Let_def)
  have q19: "binary64 (repeated_sum binary64 ln2_binary64 19 / ln2_binary64) = real (19::nat)"
    unfolding repeated_sum_ln2 by (simp add: binary64_def ln2_binary64_def round_float_eval[where e = "4"] pow2_def round_even_def Let_def)
  have q20: "binary64 (repeated_sum binary64 ln2_binary64 20 / ln2_binary64) = real (20::nat)"
    unfolding repeated_sum_ln2 by (simp add: binary64_def ln2_binary64_def round_float_eval[where e = "4"] pow2_def round_even_def Let_def)
  have q21: "binary64 (repeated_sum binary64 ln2_binary64 21 / ln2_binary64) = real (21::nat)"
    unfolding repeated_sum_ln2 by (simp add: binary64_def ln2_binary64_def round_float_eval[where e = "4"] pow2_def round_even_def Let_def)
  have q22: "binary64 (repeated_sum binary64 ln2_binary64 22 / ln2_binary64) = real (22::nat)"
    unfolding repeated_sum_ln2 by (simp add: binary64_def ln2_binary64_def round_float_eval[where e = "4"] pow2_def round_even_def Let_def)
  have q23: "binary64 (repeated_sum binary64 ln2_binary64 23 / ln2_binary64) = real (23::nat)"
    unfolding repeated_sum_ln2 by (simp add: binary64_def ln2_binary64_def round_float_eval[where e = "4"] pow2_def round_even_def Let_def)
  have q24: "binary64 (repeated_sum binary64 ln2_binary64 24 / ln2_binary64) = real (24::nat)"
    unfolding repeated_sum_ln2 by (simp add: binary64_def ln2_binary64_def round_float_eval[where e = "4"] pow2_def round_even_def Let_def)
  from assms have "C = 0 \<or> C = 1 \<or> C = 2 \<or> C = 3 \<or> C = 4 \<or> C = 5 \<or> C = 6 \<or> C = 7 \<or> C = 8 \<or> C = 9 \<or> C = 10 \<or> C = 11 \<or> C = 12 \<or> C = 13 \<or> C = 14 \<or> C = 15 \<or> C = 16 \<or> C = 17 \<or> C = 18 \<or> C = 19 \<or> C = 20 \<or> C = 21 \<or> C = 22 \<or> C = 23 \<or> C = 24"
    by presburger
  then show ?thesis
    using q0 q1 q2 q3 q4 q5 q6 q7 q8 q9 q10 q11 q12 q13 q14 q15 q16 q17 q18 q19 q20 q21 q22 q23 q24
    by (elim disjE) simp_all
qed

lemma quotient_ln2_25:
  "binary64 (repeated_sum binary64 ln2_binary64 25 / ln2_binary64) = 7036874417766399 / 281474976710656"
  unfolding repeated_sum_ln2 by (simp add: binary64_def ln2_binary64_def round_float_eval[where e = "4"] pow2_def round_even_def Let_def)

text \<open>
  In exact arithmetic a channel-first array of shape \<open>(C, H, W)\<close> filled with \<open>ln 2\<close>
  yields the map of shape \<open>(H, W)\<close> filled with \<open>C\<close>.
\<close>

lemma to_saliency_map_full_exact:
  "to_saliency_map resize (full [C, H, W] (Fin (ln 2))) None ''NCHW'' = Inr (full [H, W] (Fin (real C)))"
proof -
  have "map (\<lambda>j. fdiv (skip_nan_sum (channel_first_values (full [C, H, W] (Fin (ln 2))) j)) (Fin (ln 2))) [0..<H * W]
        = map (\<lambda>j. Fin (real C)) [0..<H * W]"
    by (simp add: channel_first_values_full skip_nan_sum_replicate)
  then show ?thesis
    using nansum_axis0_values[OF wf_full[of "[C, H, W]" "Fin (ln 2)"], where c = C and rest = "[H, W]"]
    by (simp add: to_saliency_map_def map_array_def comp_def full_def map_replicate_const)
qed

text \<open>
  C5 (as amended).  Without a target shape, \<^verbatim>\<open>to_saliency_map\<close> yields for a channel-first
  array the map over the remaining axes whose entry at each location is the sum over
  axis 0 of the values that are not not-a-number, divided by \<open>ln 2\<close>, and for a
  channel-last array the same with the sum over the last axis; where all values at a
  location are not-a-number the entry is 0.  This holds in exact arithmetic, and for the
  channel-first array also when every addition and division is rounded, with the sum
  taken in the order of the channels.  In binary64, a channel-first array of shape
  \<open>(C, H, W)\<close> with \<open>H * W \<ge> 2\<close>, filled with the float \<^verbatim>\<open>np.log(2)\<close>, yields a uniform map
  of shape \<open>(H, W)\<close> whose value does not depend on \<open>H\<close> and \<open>W\<close>; the value differs from \<open>C\<close>
  by at most \<open>((1 + 2 ^ -53) ^ (C + 1) - 1) * C\<close> and it is \<open>C\<close> for every \<open>C \<le> 24\<close>, not for
  every \<open>C\<close>.
\<close>

theorem to_saliency_map_reduction:
  "(wf_array capacity \<and> shape capacity = c # rest \<longrightarrow>
      to_saliency_map resize capacity None ''NCHW'' =
        Inr \<lparr>shape = rest,
             data = map (\<lambda>j. fdiv (skip_nan_sum (channel_first_values capacity j)) (Fin (ln 2)))
                      [0..<prod_list rest]\<rparr>
      \<and> to_saliency_map_nchw rnd l capacity =
          \<lparr>shape = rest,
           data = map (\<lambda>j. round_with rnd (fdiv (rounded_nansum rnd (channel_first_values capacity j)) (Fin l)))
                    [0..<prod_list rest]\<rparr>)
   \<and> (wf_array capacity \<and> shape capacity = outer @ [c] \<longrightarrow>
      to_saliency_map resize capacity None ''NHWC'' =
        Inr \<lparr>shape = outer,
             data = map (\<lambda>j. fdiv (skip_nan_sum (channel_last_values capacity j)) (Fin (ln 2)))
                      [0..<prod_list outer]\<rparr>)
   \<and> ((\<forall>v \<in> set vs. v = NaN) \<longrightarrow>
        fdiv (skip_nan_sum vs) (Fin (ln 2)) = Fin 0
        \<and> round_with binary64 (fdiv (rounded_nansum binary64 vs) (Fin ln2_binary64)) = Fin 0)
   \<and> to_saliency_map resize capacity None ''NCHW'' = Inr (to_saliency_map_nchw (\<lambda>x. x) (ln 2) capacity)
   \<and> (2 \<le> H * W \<longrightarrow>
        to_saliency_map_nchw binary64 ln2_binary64 (full [C, H, W] (Fin ln2_binary64))
          = full [H, W] (Fin (binary64 (repeated_sum binary64 ln2_binary64 C / ln2_binary64)))
        \<and> \<bar>binary64 (repeated_sum binary64 ln2_binary64 C / ln2_binary64) - real C\<bar>
            \<le> ((1 + 1 / 2 ^ 53) ^ Suc C - 1) * real C
        \<and> (C \<le> 24 \<longrightarrow> binary64 (repeated_sum binary64 ln2_binary64 C / ln2_binary64) = real C))"
proof (intro conjI impI)
  assume a: "wf_array capacity \<and> shape capacity = c # rest"
  then show "to_saliency_map resize capacity None ''NCHW'' =
        Inr \<lparr>shape = rest,
             data = map (\<lambda>j. fdiv (skip_nan_sum (channel_first_values capacity j)) (Fin (ln 2)))
                      [0..<prod_list rest]\<rparr>"
    using nansum_axis0_values[of capacity c rest]
    by (simp add: to_saliency_map_def map_array_def comp_def)
  from a show "to_saliency_map_nchw rnd l capacity =
          \<lparr>shape = rest,
           data = map (\<lambda>j. round_with rnd (fdiv (rounded_nansum rnd (channel_first_values capacity j)) (Fin l)))
                    [0..<prod_list rest]\<rparr>"
    by (simp add: to_saliency_map_nchw_values)
next
  assume a: "wf_array capacity \<and> shape capacity = outer @ [c]"
  then show "to_saliency_map resize capacity None ''NHWC'' =
        Inr \<lparr>shape = outer,
             data = map (\<lambda>j. fdiv (skip_nan_sum (channel_last_values capacity j)) (Fin (ln 2)))
                      [0..<prod_list outer]\<rparr>"
    using nansum_axis_last_values[of capacity outer c]
    by (simp add: to_saliency_map_def map_array_def comp_def)
next
  assume a: "\<forall>v \<in> set vs. v = NaN"
  then show "fdiv (skip_nan_sum vs) (Fin (ln 2)) = Fin 0"
    by (simp add: skip_nan_sum_all_nan)
  from a show "round_with binary64 (fdiv (rounded_nansum binary64 vs) (Fin ln2_binary64)) = Fin 0"
    by (simp add: rounded_nansum_all_nan round_with_def binary64_zero ln2_binary64_nonzero)
next
  show "to_saliency_map resize capacity None ''NCHW'' = Inr (to_saliency_map_nchw (\<lambda>x. x) (ln 2) capacity)"
    by (rule to_saliency_map_nchw_exact)
next
  show "to_saliency_map_nchw binary64 ln2_binary64 (full [C, H, W] (Fin ln2_binary64))
          = full [H, W] (Fin (binary64 (repeated_sum binary64 ln2_binary64 C / ln2_binary64)))"
    by (rule to_saliency_map_nchw_full[OF ln2_binary64_nonzero])
next
  show "\<bar>binary64 (repeated_sum binary64 ln2_binary64 C / ln2_binary64) - real C\<bar>
            \<le> ((1 + 1 / 2 ^ 53) ^ Suc C - 1) * real C"
    using repeated_quotient_error[OF ln2_binary64_pos, of 53 C]
    by (simp add: binary64_def[abs_def])
next
  assume "C \<le> 24"
  then show "binary64 (repeated_sum binary64 ln2_binary64 C / ln2_binary64) = real C"
    by (rule quotient_ln2)
qed

theorem to_saliency_map_reduction_witness:
  "to_saliency_map no_resize \<lparr>shape = [2, 1, 2], data = [NaN, Fin (ln 2), NaN, Fin (ln 2)]\<rparr> None ''NCHW''
     = Inr \<lparr>shape = [1, 2], data = [Fin 0, Fin 2]\<rparr>
   \<and> to_saliency_map no_resize \<lparr>shape = [1, 2, 2], data = [NaN, NaN, Fin (ln 2), NaN]\<rparr> None ''NHWC''
     = Inr \<lparr>shape = [1, 2], data = [Fin 0, Fin 1]\<rparr>
   \<and> fdiv (skip_nan_sum [NaN, NaN]) (Fin (ln 2)) = Fin 0
   \<and> to_saliency_map_nchw binary64 ln2_binary64
        \<lparr>shape = [2, 1, 2], data = [NaN, Fin ln2_binary64, NaN, NaN]\<rparr>
     = \<lparr>shape = [1, 2], data = [Fin 0, Fin 1]\<rparr>
   \<and> to_saliency_map_nchw binary64 ln2_binary64 (full [3, 1, 2] (Fin ln2_binary64))
     = \<lparr>shape = [1, 2], data = [Fin 3, Fin 3]\<rparr>"
  using to_saliency_map_reduction
      [where capacity = "\<lparr>shape = [2, 1, 2], data = [NaN, Fin (ln 2), NaN, Fin (ln 2)]\<rparr>"
         and c = 2 and rest = "[1, 2]" and outer = "[2, 1]" and resize = no_resize
         and vs = "[NaN, NaN]" and C = 3 and H = 1 and W = 2 and rnd = binary64 and l = ln2_binary64]
    to_saliency_map_reduction
      [where capacity = "\<lparr>shape = [1, 2, 2], data = [NaN, NaN, Fin (ln 2), NaN]\<rparr>"
         and c = 2 and rest = "[2, 2]" and outer = "[1, 2]" and resize = no_resize
         and vs = "[NaN, NaN]" and C = 3 and H = 1 and W = 2 and rnd = binary64 and l = ln2_binary64]
    to_saliency_map_reduction
      [where capacity = "\<lparr>shape = [2, 1, 2], data = [NaN, Fin ln2_binary64, NaN, NaN]\<rparr>"
         and c = 2 and rest = "[1, 2]" and outer = "[2, 1]" and resize = no_resize
         and vs = "[NaN, NaN]" and C = 3 and H = 1 and W = 2 and rnd = binary64 and l = ln2_binary64]
  by (simp add: wf_array_def channel_first_values_def channel_last_values_def skip_nan_sum_def
      rounded_nansum_def round_with_def binary64_zero binary64_one binary64_ln2 ln2_binary64_nonzero
      fsum_def upt_rec full_def numeral_2_eq_2)

text \<open>
  For \<open>C = 25\<close> the value of the map is 24.999999999999996 (\<open>7036874417766399 / 2 ^ 48\<close>),
  the binary64 number just below 25.
\<close>

theorem to_saliency_map_reduction_counterexample:
  "to_saliency_map_nchw binary64 ln2_binary64 (full [25, 1, 2] (Fin ln2_binary64))
     = \<lparr>shape = [1, 2],
        data = [Fin (7036874417766399 / 281474976710656), Fin (7036874417766399 / 281474976710656)]\<rparr>
   \<and> (7036874417766399 / 281474976710656 :: real) < 25"
  unfolding to_saliency_map_nchw_full[OF ln2_binary64_nonzero] quotient_ln2_25
  by (simp add: full_def replicate_two)

text \<open>
  C6.  With a recognised layout, a native two-dimensional map of resolution \<open>(ho, wo)\<close>
  and a target shape \<open>(h, w)\<close> (of nonzero product, as for positive integers), the
  result is that of the resampling routine, called with interpolation order 1
  (bilinear), \<^verbatim>\<open>preserve_range=True\<close> and the target shape, on the map in which every
  element of the reduced map in bits is multiplied by \<open>(ho * wo) / (h * w)\<close>.  Without a
  target shape the reduced map in bits is returned as it is, at its native resolution.
\<close>

theorem to_saliency_map_rescale:
  assumes "data_format = ''NCHW'' \<or> data_format = ''NHWC''"
    and "shape (reduce_channels data_format capacity) = [ho, wo]"
    and "h * w \<noteq> 0"
  shows "to_saliency_map resize capacity (Some [h, w]) data_format =
           resize \<lparr>shape = [ho, wo],
                   data = map (\<lambda>v. fmul (fdiv v (Fin (ln 2)))
                                     (Fin (real_of_int (int ho * int wo) / real_of_int (h * w))))
                            (data (reduce_channels data_format capacity))\<rparr>
                  [h, w] 1 True
       \<and> to_saliency_map resize capacity None data_format =
           Inr \<lparr>shape = [ho, wo],
                data = map (\<lambda>v. fdiv v (Fin (ln 2))) (data (reduce_channels data_format capacity))\<rparr>"
  using to_saliency_map_cases(1)[OF assms(1)] to_saliency_map_cases(4)[OF assms]
  by (simp add: map_array_def assms(2) comp_def)

theorem to_saliency_map_rescale_witness:
  "to_saliency_map resize_args (full [1, 2, 2] (Fin (ln 2))) (Some [1, 1]) ''NCHW'' =
     Inr \<lparr>shape = [2, 2], data = [Fin 4, Fin 4, Fin 4, Fin 4]\<rparr>
   \<and> to_saliency_map resize_args (full [1, 2, 2] (Fin (ln 2))) None ''NCHW'' =
     Inr \<lparr>shape = [2, 2], data = [Fin 1, Fin 1, Fin 1, Fin 1]\<rparr>"
  using to_saliency_map_rescale
      [where data_format = "''NCHW''" and capacity = "full [1, 2, 2] (Fin (ln 2))"
         and ho = 2 and wo = 2 and h = 1 and w = 1 and resize = resize_args]
  by (simp add: reduce_channels_def nansum_axis0_def sum_axis0_def map_array_def full_def block_def
      resize_args_def upt_rec numeral_2_eq_2)

text \<open>
  C8 (as amended).  With a recognised layout, \<^verbatim>\<open>to_saliency_map\<close> raises \<^verbatim>\<open>ValueError\<close>
  when a target shape is given and the capacity array has fewer than two dimensions or
  the target shape does not have exactly two entries, and \<^verbatim>\<open>ZeroDivisionError\<close> when the
  capacity array has three dimensions and the two entries of the target shape have the
  product zero.  Two entries of nonzero product, positive or not, are handed to the
  resampling routine unchecked, and a one-dimensional capacity array without a target
  shape is reduced to a zero-dimensional result without any error.
\<close>

theorem to_saliency_map_invalid_arguments:
  assumes "data_format = ''NCHW'' \<or> data_format = ''NHWC''"
  shows "(length (shape capacity) < 2 \<or> length sh \<noteq> 2 \<longrightarrow>
            to_saliency_map resize capacity (Some sh) data_format = Inl ValueError)
       \<and> (length (shape capacity) = 3 \<and> h * w = 0 \<longrightarrow>
            to_saliency_map resize capacity (Some [h, w]) data_format = Inl ZeroDivisionError)
       \<and> (length (shape capacity) = 3 \<and> h * w \<noteq> 0 \<longrightarrow>
            (\<exists>img. to_saliency_map resize capacity (Some [h, w]) data_format = resize img [h, w] 1 True))
       \<and> (length (shape capacity) = 1 \<longrightarrow>
            (\<exists>r. to_saliency_map resize capacity None data_format = Inr r \<and> shape r = []))"
proof (intro conjI impI)
  assume "length (shape capacity) < 2 \<or> length sh \<noteq> 2"
  then have "length (shape capacity) \<noteq> 3 \<or> length sh \<noteq> 2" by auto
  then show "to_saliency_map resize capacity (Some sh) data_format = Inl ValueError"
    by (rule to_saliency_map_cases(2)[OF assms])
next
  assume "length (shape capacity) = 3 \<and> h * w = 0"
  then show "to_saliency_map resize capacity (Some [h, w]) data_format = Inl ZeroDivisionError"
    using to_saliency_map_cases(3)[OF assms] by blast
next
  assume a: "length (shape capacity) = 3 \<and> h * w \<noteq> 0"
  then obtain c1 c2 c3 where "shape capacity = [c1, c2, c3]"
    by (auto simp: numeral_3_eq_3 length_Suc_conv)
  then have "\<exists>ho wo. shape (reduce_channels data_format capacity) = [ho, wo]"
    by (simp add: reduce_channels_def shape_nansum_axis0 shape_nansum_axis_last)
  then show "\<exists>img. to_saliency_map resize capacity (Some [h, w]) data_format = resize img [h, w] 1 True"
    using to_saliency_map_cases(4)[OF assms] a by blast
next
  assume "length (shape capacity) = 1"
  then obtain c where c: "shape capacity = [c]"
    by (cases "shape capacity") auto
  show "\<exists>r. to_saliency_map resize capacity None data_format = Inr r \<and> shape r = []"
    using assms c
    by (auto simp: to_saliency_map_def Let_def nansum_axis0_def nansum_axis_last_def sum_axis0_def
        sum_axis_last_def map_array_def)
qed

theorem to_saliency_map_invalid_arguments_witness:
  "to_saliency_map no_resize (full [2] (Fin 1)) (Some [4, 4]) ''NCHW'' = Inl ValueError
   \<and> to_saliency_map no_resize (full [1, 2, 2] (Fin 1)) (Some [4, 4, 4]) ''NHWC'' = Inl ValueError
   \<and> to_saliency_map no_resize (full [1, 2, 2] (Fin 1)) (Some [0, 4]) ''NHWC'' = Inl ZeroDivisionError
   \<and> (\<exists>img. to_saliency_map resize_args (full [1, 2, 2] (Fin 1)) (Some [- 2, - 2]) ''NCHW''
              = resize_args img [- 2, - 2] 1 True)
   \<and> (\<exists>r. to_saliency_map no_resize (full [3] (Fin 1)) None ''NCHW'' = Inr r \<and> shape r = [])"
  using to_saliency_map_invalid_arguments
      [where data_format = "''NCHW''" and capacity = "full [2] (Fin 1)" and sh = "[4, 4]"
         and resize = no_resize and h = 0 and w = 0]
    to_saliency_map_invalid_arguments
      [where data_format = "''NHWC''" and capacity = "full [1, 2, 2] (Fin 1)" and sh = "[4, 4, 4]"
         and resize = no_resize and h = 0 and w = 4]
    to_saliency_map_invalid_arguments
      [where data_format = "''NCHW''" and capacity = "full [1, 2, 2] (Fin 1)" and sh = "[4, 4]"
         and resize = resize_args and h = "- 2" and w = "- 2"]
    to_saliency_map_invalid_arguments
      [where data_format = "''NCHW''" and capacity = "full [3] (Fin 1)" and sh = "[4, 4]"
         and resize = no_resize and h = 0 and w = 4]
  by (simp add: full_def)

text \<open>
  C8 as stated fails: a one-dimensional capacity array is reduced to its sum in bits and
  returned; no exception is raised.
\<close>

theorem to_saliency_map_invalid_arguments_counterexample:
  "to_saliency_map no_resize \<lparr>shape = [3], data = [Fin 1, Fin 2, Fin 3]\<rparr> None ''NCHW''
     = Inr \<lparr>shape = [], data = [Fin (6 / ln 2)]\<rparr>"
  by (simp add: to_saliency_map_def nansum_axis0_def sum_axis0_def map_array_def block_def upt_rec)

text \<open>
  C10 (as amended).  A \<^verbatim>\<open>data_format\<close> other than \<^verbatim>\<open>'NCHW'\<close> and \<^verbatim>\<open>'NHWC'\<close> raises an
  exception (the local \<^verbatim>\<open>saliency_map\<close> is unbound: no map is computed), whatever the
  capacity array and the target shape are, so that only the two recognised values can
  produce a result.  For a capacity array of at least two dimensions and no target
  shape, a result is produced exactly for the two recognised values.  With a target
  shape this is not so: for a two-dimensional capacity array and a target shape of two
  entries the recognised values raise \<^verbatim>\<open>ValueError\<close>, the reduced map being
  one-dimensional.
\<close>

theorem to_saliency_map_data_format:
  "(data_format \<noteq> ''NCHW'' \<and> data_format \<noteq> ''NHWC'' \<longrightarrow>
      to_saliency_map resize capacity shp data_format = Inl UnboundLocalError)
   \<and> (2 \<le> length (shape capacity) \<longrightarrow>
        ((\<exists>r. to_saliency_map resize capacity None data_format = Inr r)
          \<longleftrightarrow> data_format = ''NCHW'' \<or> data_format = ''NHWC''))
   \<and> ((\<exists>r. to_saliency_map resize capacity shp data_format = Inr r) \<longrightarrow>
        data_format = ''NCHW'' \<or> data_format = ''NHWC'')
   \<and> (length (shape capacity) = 2 \<and> (data_format = ''NCHW'' \<or> data_format = ''NHWC'') \<longrightarrow>
        to_saliency_map resize capacity (Some [h, w]) data_format = Inl ValueError)"
proof (intro conjI impI)
  assume "data_format \<noteq> ''NCHW'' \<and> data_format \<noteq> ''NHWC''"
  then show "to_saliency_map resize capacity shp data_format = Inl UnboundLocalError"
    by (simp add: to_saliency_map_def)
next
  show "(\<exists>r. to_saliency_map resize capacity None data_format = Inr r)
          \<longleftrightarrow> data_format = ''NCHW'' \<or> data_format = ''NHWC''"
    by (auto simp: to_saliency_map_def Let_def)
next
  assume "\<exists>r. to_saliency_map resize capacity shp data_format = Inr r"
  then show "data_format = ''NCHW'' \<or> data_format = ''NHWC''"
    by (auto simp: to_saliency_map_def Let_def split: if_splits)
next
  assume a: "length (shape capacity) = 2 \<and> (data_format = ''NCHW'' \<or> data_format = ''NHWC'')"
  then have "data_format = ''NCHW'' \<or> data_format = ''NHWC''" by simp
  then show "to_saliency_map resize capacity (Some [h, w]) data_format = Inl ValueError"
    using a by (intro to_saliency_map_cases(2)) simp_all
qed

theorem to_saliency_map_data_format_witness:
  "to_saliency_map no_resize (full [2, 1, 1] (Fin 0)) (Some [4, 4]) ''HWC'' = Inl UnboundLocalError
   \<and> (\<exists>r. to_saliency_map no_resize (full [2, 1, 1] (Fin 0)) None ''NHWC'' = Inr r)
   \<and> to_saliency_map no_resize (full [1, 3] (Fin 0)) (Some [2, 2]) ''NHWC'' = Inl ValueError"
  using to_saliency_map_data_format
      [where data_format = "''HWC''" and resize = no_resize and capacity = "full [2, 1, 1] (Fin 0)"
         and shp = "Some [4, 4]" and h = 2 and w = 2]
    to_saliency_map_data_format
      [where data_format = "''NHWC''" and resize = no_resize and capacity = "full [2, 1, 1] (Fin 0)"
         and shp = "None" and h = 2 and w = 2]
    to_saliency_map_data_format
      [where data_format = "''NHWC''" and resize = no_resize and capacity = "full [1, 3] (Fin 0)"
         and shp = "None" and h = 2 and w = 2]
  by (simp add: full_def)

text \<open>
  A capacity array of shape \<open>(2, 2)\<close> with the target shape \<open>(4, 4)\<close> produces no result
  for either recognised value.
\<close>

theorem to_saliency_map_data_format_counterexample:
  "length (shape (full [2, 2] (Fin 0))) = 2
   \<and> to_saliency_map no_resize (full [2, 2] (Fin 0)) (Some [4, 4]) ''NCHW'' = Inl ValueError
   \<and> to_saliency_map no_resize (full [2, 2] (Fin 0)) (Some [4, 4]) ''NHWC'' = Inl ValueError"
  by (simp add: to_saliency_map_cases(2) full_def)

subsection \<open>Active neurons\<close>

lemma float32_evals:
  "float32 0 = 0" "float32 2 = 2" "float32 3 = 3" "float32 (1 / 2) = 1 / 2"
  "float32 (2 / 3) = 11184811 / 16777216"
  "float32 (89478485 / 134217728) = 11184811 / 16777216"
  unfolding float32_def
       apply (simp add: round_float_def)
      apply (simp add: round_float_eval[where e = "1"] pow2_def round_even_def Let_def)
     apply (simp add: round_float_eval[where e = "1"] pow2_def round_even_def Let_def)
    apply (simp add: round_float_eval[where e = "-1"] pow2_def round_even_def Let_def)
   apply (simp add: round_float_eval[where e = "-1"] pow2_def round_even_def Let_def)
  apply (simp add: round_float_eval[where e = "-1"] pow2_def round_even_def Let_def)
  done

text \<open>
  C9 (as amended).  For every estimator with \<open>n_samples \<ge> 1\<close> (whose nonzero counts are an
  array), \<^verbatim>\<open>active_neurons(threshold)\<close> returns a boolean array of the shape of the nonzero
  counts that is true exactly where the quotient of the count and the sample count,
  both converted to \<^verbatim>\<open>float32\<close> and divided in \<^verbatim>\<open>float32\<close>, is greater than the threshold
  converted to \<^verbatim>\<open>float32\<close>; the threshold defaults to the Python float 0.01.  A count
  whose exact quotient is greater than the threshold is therefore not always marked.
  After fitting the samples \<open>[1, 0]\<close>, \<open>[1, 0]\<close>, \<open>[0, 0]\<close> to a new estimator the nonzero
  counts are \<open>[2, 0]\<close>, the sample count is 3 and the mask at the threshold 0.5 is
  \<open>[True, False]\<close>.
\<close>

theorem active_neurons_mask:
  "(1 \<le> est_n_samples e \<and> est_neuron_nonzero e = Some a \<longrightarrow>
      active_neurons e st (Some (Fin t)) =
        Inr \<lparr>shape = shape (long_arrays st a),
             data = map (\<lambda>c. float32 t
                               < float32 (float32 (real_of_int c) / float32 (real_of_int (est_n_samples e))))
                      (data (long_arrays st a))\<rparr>
      \<and> active_neurons e st None = active_neurons e st (Some (Fin (binary64 (1 / 100)))))
   \<and> (case fit WelfordEstimator_init st0 batch_210 of
        (r, e', st') \<Rightarrow>
          r = Inr batch_210 \<and> n_samples e' = 3
          \<and> map_option (long_arrays st') (est_neuron_nonzero e') = Some \<lparr>shape = [2], data = [2, 0]\<rparr>
          \<and> active_neurons e' st' (Some (Fin (1 / 2))) = Inr \<lparr>shape = [2], data = [True, False]\<rparr>)"
proof (intro conjI impI)
  assume a: "1 \<le> est_n_samples e \<and> est_neuron_nonzero e = Some a"
  then have "real_of_int (est_n_samples e) \<noteq> 0" by simp
  then have "float32 (real_of_int (est_n_samples e)) \<noteq> 0"
    unfolding float32_def by (rule round_float_nonzero) simp
  then show "active_neurons e st (Some (Fin t)) =
        Inr \<lparr>shape = shape (long_arrays st a),
             data = map (\<lambda>c. float32 t
                               < float32 (float32 (real_of_int c) / float32 (real_of_int (est_n_samples e))))
                      (data (long_arrays st a))\<rparr>"
    using a by (simp add: active_neurons_def map_array_def round_with_def)
next
  show "active_neurons e st None = active_neurons e st (Some (Fin (binary64 (1 / 100))))"
    by (simp add: active_neurons_def)
next
  show "case fit WelfordEstimator_init st0 batch_210 of
        (r, e', st') \<Rightarrow>
          r = Inr batch_210 \<and> n_samples e' = 3
          \<and> map_option (long_arrays st') (est_neuron_nonzero e') = Some \<lparr>shape = [2], data = [2, 0]\<rparr>
          \<and> active_neurons e' st' (Some (Fin (1 / 2))) = Inr \<lparr>shape = [2], data = [True, False]\<rparr>"
    by (simp add: batch_210_def fit_defs upt_rec n_samples_def active_neurons_def numeral_2_eq_2
        round_with_def float32_evals)
qed

theorem active_neurons_mask_witness:
  "1 \<le> est_n_samples est_210 \<and> est_neuron_nonzero est_210 = Some 2
   \<and> active_neurons est_210 store_210 (Some (Fin (1 / 2))) = Inr \<lparr>shape = [2], data = [True, False]\<rparr>"
  using active_neurons_mask
      [where e = est_210 and a = 2 and st = store_210 and t = "1 / 2" and ?st0.0 = empty_store]
  by (simp add: est_210_eval store_210_eval float32_evals)

text \<open>
  With the counts \<open>[2, 0]\<close> of three samples and the threshold 0.6666666641831398 (the
  binary64 number \<open>89478485 / 2 ^ 27\<close>, less than \<open>2 / 3\<close>), both the quotient and the
  threshold round to the \<^verbatim>\<open>float32\<close> number \<open>11184811 / 2 ^ 24\<close>, and the mask is
  \<open>[False, False]\<close>.
\<close>

theorem active_neurons_mask_counterexample:
  "n_samples est_210 = 3
   \<and> map_option (long_arrays store_210) (est_neuron_nonzero est_210) = Some \<lparr>shape = [2], data = [2, 0]\<rparr>
   \<and> (89478485 / 134217728 :: real) < 2 / 3
   \<and> active_neurons est_210 store_210 (Some (Fin (89478485 / 134217728)))
       = Inr \<lparr>shape = [2], data = [False, False]\<rparr>"
  by (simp add: est_210_eval store_210_eval n_samples_def active_neurons_def map_array_def
      round_with_def float32_evals)

end
